theory Spec2Isabelle
  imports Complex_Main
begin

section \<open>Python values shared by both agents\<close>

text \<open>
  The two learning agents of the repository live in
  \<^verbatim>\<open>src/rl_algorithms/q_learning.py\<close> and \<^verbatim>\<open>src/rl_algorithms/thompson_sampling.py\<close>.
  Python floats are modelled as \<^typ>\<open>real\<close>, Python ints as \<^typ>\<open>int\<close>, and a Python
  \<^verbatim>\<open>dict\<close> as an association list in insertion order (Python dicts iterate in insertion
  order, and \<^verbatim>\<open>max(d, key=d.get)\<close> returns the first maximal key in that order).
  An exception is a value of \<open>py_error\<close>; an operation that mutates the agent returns
  the outcome together with the agent as the exception (or the return) leaves it.
\<close>

datatype py_error = KeyError | ValueError | IndexError | ZeroDivisionError

type_synonym ('k, 'v) dict = "('k \<times> 'v) list"

text \<open>\<^verbatim>\<open>k in d\<close>\<close>

definition dict_contains :: "('k, 'v) dict \<Rightarrow> 'k \<Rightarrow> bool" where
  "dict_contains d k = (map_of d k \<noteq> None)"

text \<open>\<^verbatim>\<open>d[k]\<close>, which raises KeyError on a missing key\<close>

definition dict_get :: "('k, 'v) dict \<Rightarrow> 'k \<Rightarrow> py_error + 'v" where
  "dict_get d k = (case map_of d k of None \<Rightarrow> Inl KeyError | Some v \<Rightarrow> Inr v)"

text \<open>\<^verbatim>\<open>d[k] = v\<close>: an existing key keeps its position, a new key goes to the end\<close>

fun dict_set :: "'k \<Rightarrow> 'v \<Rightarrow> ('k, 'v) dict \<Rightarrow> ('k, 'v) dict" where
  "dict_set k v [] = [(k, v)]"
| "dict_set k v (p # d) = (if fst p = k then (k, v) # d else p # dict_set k v d)"

text \<open>\<^verbatim>\<open>{k: v for k in ks}\<close>\<close>

definition dict_from_keys :: "'v \<Rightarrow> 'k list \<Rightarrow> ('k, 'v) dict" where
  "dict_from_keys v ks = foldl (\<lambda>d k. dict_set k v d) [] ks"

definition dict_values :: "('k, 'v) dict \<Rightarrow> 'v list" where
  "dict_values d = map snd d"

text \<open>\<^verbatim>\<open>max(xs)\<close> on floats: ValueError on an empty sequence\<close>

fun py_max :: "real list \<Rightarrow> py_error + real" where
  "py_max [] = Inl ValueError"
| "py_max (x # xs) = Inr (foldl max x xs)"

text \<open>
  \<^verbatim>\<open>max(d, key=d.get)\<close>: the keys are visited in insertion order and the candidate is
  replaced only by a strictly larger value, so the first maximal key wins. The keys of a
  dict are distinct, so \<^verbatim>\<open>d.get(k)\<close> at the visited key is the value stored beside it.
\<close>

fun max_item :: "('k \<times> real) \<Rightarrow> ('k \<times> real) list \<Rightarrow> ('k \<times> real)" where
  "max_item best [] = best"
| "max_item best (p # ps) = max_item (if snd p > snd best then p else best) ps"

fun py_max_key :: "('k, real) dict \<Rightarrow> py_error + 'k" where
  "py_max_key [] = Inl ValueError"
| "py_max_key (p # ps) = Inr (fst (max_item p ps))"

text \<open>\<^verbatim>\<open>str(b)\<close> of a bool, as an f-string formats it\<close>

definition str_bool :: "bool \<Rightarrow> string" where
  "str_bool b = (if b then ''True'' else ''False'')"

section \<open>The Q-learning scheduler\<close>

record q_agent =
  alpha :: real
  gamma :: real
  epsilon :: real
  actions :: "string list"
  q_table :: "(string, (string, real) dict) dict"
  total_updates :: int
  episode_rewards :: "real list"

text \<open>
  A snapshot is the dict of \<^verbatim>\<open>to_dict\<close>; \<^verbatim>\<open>load_from_dict\<close> reads each field with
  \<^verbatim>\<open>data.get(field, default)\<close>, so every field may be absent.
\<close>

record q_snapshot =
  snap_q_table :: "(string, (string, real) dict) dict option"
  snap_alpha :: "real option"
  snap_gamma :: "real option"
  snap_epsilon :: "real option"
  snap_total_updates :: "int option"
  snap_actions :: "string list option"
  snap_last_updated :: "string option"

definition ACTIONS :: "string list" where
  "ACTIONS = [''wait_1d'', ''wait_3d'', ''wait_5d'', ''wait_7d'', ''wait_10d'', ''wait_14d'']"

definition ql_load_from_dict :: "q_snapshot \<Rightarrow> q_agent \<Rightarrow> q_agent" where
  "ql_load_from_dict data ag =
     ag\<lparr> q_table := (case snap_q_table data of None \<Rightarrow> [] | Some t \<Rightarrow> t),
         alpha := (case snap_alpha data of None \<Rightarrow> alpha ag | Some x \<Rightarrow> x),
         gamma := (case snap_gamma data of None \<Rightarrow> gamma ag | Some x \<Rightarrow> x),
         epsilon := (case snap_epsilon data of None \<Rightarrow> epsilon ag | Some x \<Rightarrow> x),
         total_updates := (case snap_total_updates data of None \<Rightarrow> 0 | Some n \<Rightarrow> n),
         actions := (case snap_actions data of None \<Rightarrow> actions ag | Some xs \<Rightarrow> xs) \<rparr>"

text \<open>The constructor; \<^verbatim>\<open>load_from_dict=None\<close> is \<open>None\<close>.\<close>

definition QLearningScheduler :: "real \<Rightarrow> real \<Rightarrow> real \<Rightarrow> q_snapshot option \<Rightarrow> q_agent" where
  "QLearningScheduler learning_rate discount_factor eps load =
     (let ag = \<lparr> alpha = learning_rate, gamma = discount_factor, epsilon = eps,
                 actions = ACTIONS, q_table = [], total_updates = 0, episode_rewards = [] \<rparr>
      in case load of None \<Rightarrow> ag | Some data \<Rightarrow> ql_load_from_dict data ag)"

definition day_bucket :: "int \<Rightarrow> string" where
  "day_bucket days_since_applied =
     (if days_since_applied \<le> 2 then ''0-2''
      else if days_since_applied \<le> 5 then ''3-5''
      else if days_since_applied \<le> 10 then ''6-10''
      else ''11+'')"

definition get_state_key :: "int \<Rightarrow> string \<Rightarrow> bool \<Rightarrow> string" where
  "get_state_key days_since_applied company_type has_connection =
     day_bucket days_since_applied @ ''_'' @ company_type @ ''_'' @ str_bool has_connection"

text \<open>
  \<^verbatim>\<open>if state_key not in self.q_table: self.q_table[state_key] = {a: 0.0 for a in self.actions}\<close>,
  the lazy initialisation that \<^verbatim>\<open>get_action\<close>, \<^verbatim>\<open>update\<close> and \<^verbatim>\<open>get_best_action\<close> all
  start with.
\<close>

definition init_state :: "string \<Rightarrow> q_agent \<Rightarrow> q_agent" where
  "init_state state_key ag =
     (if dict_contains (q_table ag) state_key then ag
      else ag\<lparr> q_table := dict_set state_key (dict_from_keys 0 (actions ag)) (q_table ag) \<rparr>)"

text \<open>\<^verbatim>\<open>random.choice(seq)\<close> with the drawn index given: IndexError on an empty sequence\<close>

definition random_choice :: "nat \<Rightarrow> 'a list \<Rightarrow> py_error + 'a" where
  "random_choice i xs = (if xs = [] then Inl IndexError else Inr (xs ! (i mod length xs)))"

text \<open>
  \<^verbatim>\<open>get_action\<close>: \<open>u\<close> is the value of \<^verbatim>\<open>random.random()\<close> and \<open>i\<close> the index drawn by
  \<^verbatim>\<open>random.choice\<close>.
\<close>

definition get_action ::
  "real \<Rightarrow> nat \<Rightarrow> int \<Rightarrow> string \<Rightarrow> bool \<Rightarrow> bool \<Rightarrow> q_agent \<Rightarrow> (py_error + string) \<times> q_agent" where
  "get_action u i days_since_applied company_type has_connection explore ag =
     (let state_key = get_state_key days_since_applied company_type has_connection;
          ag1 = init_state state_key ag
      in if explore \<and> u < epsilon ag1 then (random_choice i (actions ag1), ag1)
         else (case dict_get (q_table ag1) state_key of
                 Inl e \<Rightarrow> (Inl e, ag1)
               | Inr q_values \<Rightarrow>
                  (case py_max (dict_values q_values) of
                     Inl e \<Rightarrow> (Inl e, ag1)
                   | Inr max_q \<Rightarrow>
                      (random_choice i (map fst (filter (\<lambda>(a, q). q = max_q) q_values)), ag1))))"

text \<open>\<^verbatim>\<open>update\<close>; \<open>next_state = None\<close> is the terminal case.\<close>

definition ql_update ::
  "int \<times> string \<times> bool \<Rightarrow> string \<Rightarrow> real \<Rightarrow> (int \<times> string \<times> bool) option \<Rightarrow> q_agent
     \<Rightarrow> (py_error + unit) \<times> q_agent" where
  "ql_update state action reward next_state ag =
     (let state_key = (case state of (d, c, h) \<Rightarrow> get_state_key d c h);
          ag1 = init_state state_key ag
      in case dict_get (q_table ag1) state_key of
           Inl e \<Rightarrow> (Inl e, ag1)
         | Inr row \<Rightarrow>
            (case dict_get row action of
               Inl e \<Rightarrow> (Inl e, ag1)
             | Inr current_q \<Rightarrow>
                (let ag2 = (case next_state of
                              None \<Rightarrow> ag1
                            | Some (d', c', h') \<Rightarrow> init_state (get_state_key d' c' h') ag1);
                     max_next = (case next_state of
                                   None \<Rightarrow> Inr 0
                                 | Some (d', c', h') \<Rightarrow>
                                    (case dict_get (q_table ag2) (get_state_key d' c' h') of
                                       Inl e \<Rightarrow> Inl e
                                     | Inr next_row \<Rightarrow> py_max (dict_values next_row)))
                 in case max_next of
                      Inl e \<Rightarrow> (Inl e, ag2)
                    | Inr max_next_q \<Rightarrow>
                       (let new_q = current_q + alpha ag2 * (reward + gamma ag2 * max_next_q - current_q)
                        in case dict_get (q_table ag2) state_key of
                             Inl e \<Rightarrow> (Inl e, ag2)
                           | Inr row2 \<Rightarrow>
                              (Inr (),
                               ag2\<lparr> q_table := dict_set state_key (dict_set action new_q row2) (q_table ag2),
                                    total_updates := total_updates ag2 + 1 \<rparr>)))))"

definition get_best_action ::
  "int \<Rightarrow> string \<Rightarrow> bool \<Rightarrow> q_agent \<Rightarrow> (py_error + string \<times> real) \<times> q_agent" where
  "get_best_action days_since_applied company_type has_connection ag =
     (let state_key = get_state_key days_since_applied company_type has_connection;
          ag1 = init_state state_key ag
      in case dict_get (q_table ag1) state_key of
           Inl e \<Rightarrow> (Inl e, ag1)
         | Inr q_values \<Rightarrow>
            (case py_max_key q_values of
               Inl e \<Rightarrow> (Inl e, ag1)
             | Inr best_action \<Rightarrow>
                (case dict_get q_values best_action of
                   Inl e \<Rightarrow> (Inl e, ag1)
                 | Inr best_q \<Rightarrow> (Inr (best_action, best_q), ag1))))"

text \<open>
  The summary is a dict from field name to a number. \<^verbatim>\<open>np.mean\<close>, \<^verbatim>\<open>np.max\<close> and
  \<^verbatim>\<open>np.min\<close> are given for a non-empty list: the summary calls each of them under the
  guard \<^verbatim>\<open>if all_q_values\<close>, so none is ever applied to an empty list.
\<close>

datatype stat = IntV int | FloatV real

definition np_mean :: "real list \<Rightarrow> real" where
  "np_mean xs = sum_list xs / real (length xs)"

definition np_max :: "real list \<Rightarrow> real" where
  "np_max xs = foldl max (hd xs) (tl xs)"

definition np_min :: "real list \<Rightarrow> real" where
  "np_min xs = foldl min (hd xs) (tl xs)"

definition get_q_table_summary :: "q_agent \<Rightarrow> (string, stat) dict" where
  "get_q_table_summary ag =
     (if q_table ag = [] then
        [(''total_states'', IntV 0),
         (''total_updates'', IntV (total_updates ag)),
         (''avg_q_value'', FloatV 0)]
      else
        (let all_q_values = concat (map (\<lambda>(k, state_actions). dict_values state_actions) (q_table ag))
         in [(''total_states'', IntV (int (length (q_table ag)))),
             (''total_updates'', IntV (total_updates ag)),
             (''avg_q_value'', FloatV (if all_q_values \<noteq> [] then np_mean all_q_values else 0)),
             (''max_q_value'', FloatV (if all_q_values \<noteq> [] then np_max all_q_values else 0)),
             (''min_q_value'', FloatV (if all_q_values \<noteq> [] then np_min all_q_values else 0))]))"

definition ql_to_dict :: "string \<Rightarrow> q_agent \<Rightarrow> q_snapshot" where
  "ql_to_dict now ag =
     \<lparr> snap_q_table = Some (q_table ag),
       snap_alpha = Some (alpha ag),
       snap_gamma = Some (gamma ag),
       snap_epsilon = Some (epsilon ag),
       snap_total_updates = Some (total_updates ag),
       snap_actions = Some (actions ag),
       snap_last_updated = Some now \<rparr>"

section \<open>The Thompson-sampling messenger\<close>

subsection \<open>Title classification\<close>

text \<open>
  \<^verbatim>\<open>str.lower()\<close> on the ASCII letters; every other character is kept (titles are
  taken to be ASCII text).
\<close>

definition lower_char :: "char \<Rightarrow> char" where
  "lower_char c =
     (case map_of (zip ''ABCDEFGHIJKLMNOPQRSTUVWXYZ'' ''abcdefghijklmnopqrstuvwxyz'') c of
        None \<Rightarrow> c
      | Some l \<Rightarrow> l)"

definition lower :: "string \<Rightarrow> string" where
  "lower s = map lower_char s"

fun starts_with :: "string \<Rightarrow> string \<Rightarrow> bool" where
  "starts_with [] s = True"
| "starts_with (c # w) [] = False"
| "starts_with (c # w) (d # s) = (c = d \<and> starts_with w s)"

text \<open>\<^verbatim>\<open>word in text\<close> on strings: \<open>word\<close> occurs in \<open>text\<close> as a contiguous substring\<close>

fun str_in :: "string \<Rightarrow> string \<Rightarrow> bool" where
  "str_in w [] = (w = [])"
| "str_in w (c # s) = (starts_with w (c # s) \<or> str_in w s)"

text \<open>\<^verbatim>\<open>any(word in title_lower for word in words)\<close>\<close>

definition any_word_in :: "string list \<Rightarrow> string \<Rightarrow> bool" where
  "any_word_in ws title_lower = list_ex (\<lambda>word. str_in word title_lower) ws"

definition title_category :: "string \<Rightarrow> string" where
  "title_category contact_title =
     (let title_lower = lower contact_title
      in if any_word_in [''recruit'', ''talent'', ''hr''] title_lower then ''recruiter''
         else if any_word_in [''vp'', ''vice president'', ''chief'', ''head''] title_lower
           then ''executive''
         else if any_word_in [''director'', ''lead''] title_lower then ''director''
         else ''manager'')"

definition get_context_key :: "string \<Rightarrow> string \<Rightarrow> bool \<Rightarrow> string" where
  "get_context_key contact_title company_culture has_connection =
     title_category contact_title @ ''_'' @ company_culture @ ''_'' @ str_bool has_connection"

text \<open>
  The precedence as the specification words it: an ordered list of (category, keywords)
  pairs, evaluated in order; the first group with a keyword in the lowercased title gives
  the category, and the default is used when no group matches.
\<close>

fun classify_spec :: "(string \<times> string list) list \<Rightarrow> string \<Rightarrow> string \<Rightarrow> string" where
  "classify_spec [] dflt title_lower = dflt"
| "classify_spec ((category, keywords) # groups) dflt title_lower =
     (if any_word_in keywords title_lower then category
      else classify_spec groups dflt title_lower)"

definition title_groups :: "(string \<times> string list) list" where
  "title_groups =
     [(''recruiter'', [''recruit'', ''talent'', ''hr'']),
      (''executive'', [''vp'', ''vice president'', ''chief'', ''head'']),
      (''director'', [''director'', ''lead''])]"

subsection \<open>The belief table and its operations\<close>

text \<open>An entry \<^verbatim>\<open>{'alpha': a, 'beta': b}\<close> of a row.\<close>

record beta_dist =
  dist_alpha :: real
  dist_beta :: real

record ts_agent =
  arms :: "string list"
  distributions :: "(string, (string, beta_dist) dict) dict"
  total_selections :: int
  total_successes :: int
  arm_history :: "(string \<times> string \<times> (string, real) dict) list"

record ts_snapshot =
  snap_distributions :: "(string, (string, beta_dist) dict) dict option"
  snap_arms :: "string list option"
  snap_total_selections :: "int option"
  snap_total_successes :: "int option"
  snap_ts_last_updated :: "string option"

definition ARMS :: "string list" where
  "ARMS = [''formal'', ''casual'', ''connection_focused'']"

definition ts_load_from_dict :: "ts_snapshot \<Rightarrow> ts_agent \<Rightarrow> ts_agent" where
  "ts_load_from_dict data ag =
     ag\<lparr> distributions := (case snap_distributions data of None \<Rightarrow> [] | Some t \<Rightarrow> t),
         arms := (case snap_arms data of None \<Rightarrow> arms ag | Some xs \<Rightarrow> xs),
         total_selections := (case snap_total_selections data of None \<Rightarrow> 0 | Some n \<Rightarrow> n),
         total_successes := (case snap_total_successes data of None \<Rightarrow> 0 | Some n \<Rightarrow> n) \<rparr>"

definition ThompsonSamplingMessenger :: "ts_snapshot option \<Rightarrow> ts_agent" where
  "ThompsonSamplingMessenger load =
     (let ag = \<lparr> arms = ARMS, distributions = [], total_selections = 0, total_successes = 0,
                 arm_history = [] \<rparr>
      in case load of None \<Rightarrow> ag | Some data \<Rightarrow> ts_load_from_dict data ag)"

text \<open>
  \<^verbatim>\<open>if context_key not in self.distributions: self.distributions[context_key] =
  {arm: {'alpha': 1.0, 'beta': 1.0} for arm in self.arms}\<close>
\<close>

definition init_context :: "string \<Rightarrow> ts_agent \<Rightarrow> ts_agent" where
  "init_context context_key ag =
     (if dict_contains (distributions ag) context_key then ag
      else ag\<lparr> distributions :=
                 dict_set context_key
                   (dict_from_keys \<lparr> dist_alpha = 1, dist_beta = 1 \<rparr> (arms ag))
                   (distributions ag) \<rparr>)"

text \<open>
  \<^verbatim>\<open>np.random.beta(a, b)\<close> with the drawn value given: numpy raises ValueError unless
  both parameters are positive.
\<close>

definition np_random_beta :: "real \<Rightarrow> real \<Rightarrow> real \<Rightarrow> py_error + real" where
  "np_random_beta draw a b = (if a \<le> 0 \<or> b \<le> 0 then Inl ValueError else Inr draw)"

text \<open>
  The sampling loop of \<^verbatim>\<open>select_arm\<close>; \<open>draws n\<close> is the value the \<open>n\<close>-th call of the
  random generator gives.
\<close>

fun draw_samples ::
  "(nat \<Rightarrow> real) \<Rightarrow> nat \<Rightarrow> (string, beta_dist) dict \<Rightarrow> string list \<Rightarrow> (string, real) dict
     \<Rightarrow> py_error + (string, real) dict" where
  "draw_samples draws n row [] samples = Inr samples"
| "draw_samples draws n row (arm # rest) samples =
     (case dict_get row arm of
        Inl e \<Rightarrow> Inl e
      | Inr p \<Rightarrow>
         (case np_random_beta (draws n) (dist_alpha p) (dist_beta p) of
            Inl e \<Rightarrow> Inl e
          | Inr sample \<Rightarrow> draw_samples draws (Suc n) row rest (dict_set arm sample samples)))"

definition select_arm ::
  "(nat \<Rightarrow> real) \<Rightarrow> string \<Rightarrow> string \<Rightarrow> bool \<Rightarrow> ts_agent \<Rightarrow> (py_error + string) \<times> ts_agent" where
  "select_arm draws contact_title company_culture has_connection ag =
     (let context_key = get_context_key contact_title company_culture has_connection;
          ag1 = init_context context_key ag
      in case dict_get (distributions ag1) context_key of
           Inl e \<Rightarrow> (Inl e, ag1)
         | Inr row \<Rightarrow>
            (case draw_samples draws 0 row (arms ag1) [] of
               Inl e \<Rightarrow> (Inl e, ag1)
             | Inr samples \<Rightarrow>
                (case py_max_key samples of
                   Inl e \<Rightarrow> (Inl e, ag1)
                 | Inr selected_arm \<Rightarrow>
                    (Inr selected_arm,
                     ag1\<lparr> total_selections := total_selections ag1 + 1,
                          arm_history := arm_history ag1 @ [(context_key, selected_arm, samples)] \<rparr>))))"

definition ts_update ::
  "string \<Rightarrow> string \<Rightarrow> bool \<Rightarrow> string \<Rightarrow> bool \<Rightarrow> ts_agent \<Rightarrow> (py_error + unit) \<times> ts_agent" where
  "ts_update contact_title company_culture has_connection arm got_response ag =
     (let context_key = get_context_key contact_title company_culture has_connection;
          ag1 = init_context context_key ag
      in case dict_get (distributions ag1) context_key of
           Inl e \<Rightarrow> (Inl e, ag1)
         | Inr row \<Rightarrow>
            (case dict_get row arm of
               Inl e \<Rightarrow> (Inl e, ag1)
             | Inr p \<Rightarrow>
                (if got_response then
                   (Inr (),
                    ag1\<lparr> distributions :=
                           dict_set context_key
                             (dict_set arm (p\<lparr> dist_alpha := dist_alpha p + 1 \<rparr>) row)
                             (distributions ag1),
                         total_successes := total_successes ag1 + 1 \<rparr>)
                 else
                   (Inr (),
                    ag1\<lparr> distributions :=
                           dict_set context_key
                             (dict_set arm (p\<lparr> dist_beta := dist_beta p + 1 \<rparr>) row)
                             (distributions ag1) \<rparr>))))"

text \<open>The loop of \<^verbatim>\<open>get_arm_probabilities\<close> over \<^verbatim>\<open>self.arms\<close>.\<close>

fun arm_means ::
  "(string, beta_dist) dict \<Rightarrow> string list \<Rightarrow> (string, real) dict \<Rightarrow> py_error + (string, real) dict" where
  "arm_means row [] probabilities = Inr probabilities"
| "arm_means row (arm # rest) probabilities =
     (case dict_get row arm of
        Inl e \<Rightarrow> Inl e
      | Inr p \<Rightarrow>
         (if dist_alpha p + dist_beta p = 0 then Inl ZeroDivisionError
          else arm_means row rest
                 (dict_set arm (dist_alpha p / (dist_alpha p + dist_beta p)) probabilities)))"

definition get_arm_probabilities ::
  "string \<Rightarrow> string \<Rightarrow> bool \<Rightarrow> ts_agent \<Rightarrow> (py_error + (string, real) dict) \<times> ts_agent" where
  "get_arm_probabilities contact_title company_culture has_connection ag =
     (let context_key = get_context_key contact_title company_culture has_connection
      in if \<not> dict_contains (distributions ag) context_key
         then (Inr (dict_from_keys (1 / 2) (arms ag)), ag)
         else (case dict_get (distributions ag) context_key of
                 Inl e \<Rightarrow> (Inl e, ag)
               | Inr row \<Rightarrow> (arm_means row (arms ag) [], ag)))"

definition get_best_arm ::
  "string \<Rightarrow> string \<Rightarrow> bool \<Rightarrow> ts_agent \<Rightarrow> (py_error + string \<times> real) \<times> ts_agent" where
  "get_best_arm contact_title company_culture has_connection ag =
     (case get_arm_probabilities contact_title company_culture has_connection ag of
        (Inl e, ag1) \<Rightarrow> (Inl e, ag1)
      | (Inr probs, ag1) \<Rightarrow>
         (case py_max_key probs of
            Inl e \<Rightarrow> (Inl e, ag1)
          | Inr best_arm \<Rightarrow>
             (case dict_get probs best_arm of
                Inl e \<Rightarrow> (Inl e, ag1)
              | Inr best_prob \<Rightarrow> (Inr (best_arm, best_prob), ag1))))"

definition ts_to_dict :: "string \<Rightarrow> ts_agent \<Rightarrow> ts_snapshot" where
  "ts_to_dict now ag =
     \<lparr> snap_distributions = Some (distributions ag),
       snap_arms = Some (arms ag),
       snap_total_selections = Some (total_selections ag),
       snap_total_successes = Some (total_successes ag),
       snap_ts_last_updated = Some now \<rparr>"

section \<open>Well-formed tables and reachable agents\<close>

text \<open>
  A Q-table is well formed when the action list is not empty and every row is a non-empty
  dict (distinct keys). The constructor gives such a table and every operation keeps it
  so; only a snapshot from outside can break it.
\<close>

definition q_inv :: "q_agent \<Rightarrow> bool" where
  "q_inv ag =
     (actions ag \<noteq> [] \<and>
      list_all (\<lambda>(k, row). row \<noteq> [] \<and> distinct (map fst row)) (q_table ag))"

text \<open>
  A belief table is well formed when the arms are the fixed three and every row has
  exactly these arms, in this order, each with both parameters at least 1.
\<close>

definition row_ok :: "(string, beta_dist) dict \<Rightarrow> bool" where
  "row_ok row =
     (map fst row = ARMS \<and> list_all (\<lambda>(a, p). 1 \<le> dist_alpha p \<and> 1 \<le> dist_beta p) row)"

definition ts_inv :: "ts_agent \<Rightarrow> bool" where
  "ts_inv ag = (arms ag = ARMS \<and> list_all (\<lambda>(k, row). row_ok row) (distributions ag))"

text \<open>
  The agents a program can reach. A messenger is constructed without a snapshot, or with
  one; any operation is called on it with any arguments (also calls that raise); and
  \<^verbatim>\<open>load_from_dict\<close> is called with a snapshot. A snapshot is a dict that may lack any of
  its keys: \<^verbatim>\<open>to_dict\<close> writes all of them, while the message agent of
  \<^verbatim>\<open>agents/message_agent.py\<close> loads, on every start, a dict holding only
  \<^verbatim>\<open>distributions\<close> and \<^verbatim>\<open>total_selections\<close>, the latter read from another column of
  the database. So the table of a snapshot, when it has one, is the table of a reachable
  agent, its arm list, when it has one, is the arm list of a reachable agent, and its
  counters and time stamp are arbitrary.
\<close>

definition snapshot_of :: "ts_snapshot \<Rightarrow> ts_agent \<Rightarrow> bool" where
  "snapshot_of data ag =
     ((snap_distributions data = None \<or> snap_distributions data = Some (distributions ag))
      \<and> (snap_arms data = None \<or> snap_arms data = Some (arms ag)))"

inductive ts_reachable :: "ts_agent \<Rightarrow> bool" where
  fresh: "ts_reachable (ThompsonSamplingMessenger None)"
| restarted: "ts_reachable ag \<Longrightarrow> snapshot_of data ag
     \<Longrightarrow> ts_reachable (ThompsonSamplingMessenger (Some data))"
| selected: "ts_reachable ag \<Longrightarrow> ts_reachable (snd (select_arm draws t c h ag))"
| updated: "ts_reachable ag \<Longrightarrow> ts_reachable (snd (ts_update t c h arm got ag))"
| asked: "ts_reachable ag \<Longrightarrow> ts_reachable (snd (get_arm_probabilities t c h ag))"
| asked_best: "ts_reachable ag \<Longrightarrow> ts_reachable (snd (get_best_arm t c h ag))"
| loaded: "ts_reachable ag \<Longrightarrow> ts_reachable ag' \<Longrightarrow> snapshot_of data ag
     \<Longrightarrow> ts_reachable (ts_load_from_dict data ag')"

text \<open>The entry of an arm in the row of a context, if the table has one.\<close>

definition entry :: "ts_agent \<Rightarrow> string \<Rightarrow> string \<Rightarrow> beta_dist option" where
  "entry ag context_key arm =
     (case map_of (distributions ag) context_key of
        None \<Rightarrow> None
      | Some row \<Rightarrow> map_of row arm)"

text \<open>
  The parameters an agent holds for an arm in a context: the stored entry, or the uniform
  prior that the lazy initialisation gives a row not yet created.
\<close>

definition belief :: "ts_agent \<Rightarrow> string \<Rightarrow> string \<Rightarrow> beta_dist" where
  "belief ag context_key arm =
     (case entry ag context_key arm of
        None \<Rightarrow> \<lparr> dist_alpha = 1, dist_beta = 1 \<rparr>
      | Some p \<Rightarrow> p)"

section \<open>Facts about dicts and well-formed tables\<close>

subsection \<open>Dicts\<close>

lemma map_of_dict_set: "map_of (dict_set k v d) = (map_of d)(k \<mapsto> v)"
  by (induction d) (auto simp: fun_eq_iff)

lemma keys_dict_set:
  "map fst (dict_set k v d) = (if k \<in> fst ` set d then map fst d else map fst d @ [k])"
  by (induction d) auto

lemma distinct_dict_set: "distinct (map fst d) \<Longrightarrow> distinct (map fst (dict_set k v d))"
  by (simp add: keys_dict_set)

lemma set_dict_set: "set (dict_set k v d) \<subseteq> insert (k, v) (set d)"
  by (induction d) auto

lemma dict_set_nonempty: "dict_set k v d \<noteq> []"
  by (cases d) auto

lemma foldl_dict_set_keys:
  "distinct (map fst d) \<Longrightarrow> distinct (map fst (foldl (\<lambda>d k. dict_set k v d) d ks))"
  by (induction ks arbitrary: d) (auto simp: distinct_dict_set)

lemma foldl_dict_set_nonempty:
  "d \<noteq> [] \<or> ks \<noteq> [] \<Longrightarrow> foldl (\<lambda>d k. dict_set k v d) d ks \<noteq> []"
  by (induction ks arbitrary: d) (auto simp: dict_set_nonempty)

lemma foldl_dict_set_values:
  "snd ` set (foldl (\<lambda>d k. dict_set k v d) d ks) \<subseteq> insert v (snd ` set d)"
proof (induction ks arbitrary: d)
  case Nil show ?case by auto
next
  case (Cons k ks)
  have "snd ` set (dict_set k v d) \<subseteq> insert v (snd ` set d)"
    using set_dict_set[of k v d] by auto
  with Cons[of "dict_set k v d"] show ?case by auto
qed

lemma max_item_mem: "max_item best ps \<in> set (best # ps)"
  by (induction ps arbitrary: best) (auto split: if_splits)

lemma max_item_ge: "p \<in> set (best # ps) \<Longrightarrow> snd p \<le> snd (max_item best ps)"
proof (induction ps arbitrary: best p)
  case Nil then show ?case by simp
next
  case (Cons q ps)
  have step: "snd best \<le> snd (max_item (if snd q > snd best then q else best) ps)"
    by (rule order_trans[OF _ Cons.IH[of "if snd q > snd best then q else best"]]) auto
  from Cons.prems consider "p = best" | "p = q" | "p \<in> set ps" by auto
  then show ?case
  proof cases
    case 1 then show ?thesis using step by simp
  next
    case 2
    have "snd q \<le> snd (max_item (if snd q > snd best then q else best) ps)"
      by (rule order_trans[OF _ Cons.IH[of "if snd q > snd best then q else best"]]) auto
    then show ?thesis using 2 by simp
  next
    case 3 then show ?thesis using Cons.IH[of p] by simp
  qed
qed

lemma max_item_snd: "snd (max_item best ps) = foldl max (snd best) (map snd ps)"
  by (induction ps arbitrary: best) (auto simp: max_def)


lemma dict_from_keys_nonempty: "ks \<noteq> [] \<Longrightarrow> dict_from_keys v ks \<noteq> []"
  by (simp add: dict_from_keys_def foldl_dict_set_nonempty)

lemma dict_from_keys_distinct: "distinct (map fst (dict_from_keys v ks))"
  by (simp add: dict_from_keys_def foldl_dict_set_keys)

lemma dict_from_keys_values: "snd ` set (dict_from_keys v ks) \<subseteq> {v}"
  using foldl_dict_set_values[of v "[]" ks] by (simp add: dict_from_keys_def)

lemma dict_get_dict_set_same: "dict_get (dict_set k v d) k = Inr v"
  by (simp add: dict_get_def map_of_dict_set)

lemma dict_get_dict_set_other: "k' \<noteq> k \<Longrightarrow> dict_get (dict_set k v d) k' = dict_get d k'"
  by (simp add: dict_get_def map_of_dict_set)

lemma dict_get_mem: "dict_get d k = Inr v \<Longrightarrow> (k, v) \<in> set d"
  by (auto simp: dict_get_def split: option.splits dest: map_of_SomeD)

lemma dict_get_contains: "dict_contains d k \<Longrightarrow> \<exists>v. dict_get d k = Inr v"
  by (auto simp: dict_get_def dict_contains_def)

lemma dict_get_distinct: "distinct (map fst d) \<Longrightarrow> (k, v) \<in> set d \<Longrightarrow> dict_get d k = Inr v"
  by (simp add: dict_get_def)

lemma py_max_key_ok:
  assumes "row \<noteq> []" "distinct (map fst row)"
  shows "\<exists>a v. py_max_key row = Inr a \<and> dict_get row a = Inr v
            \<and> py_max (dict_values row) = Inr v \<and> (\<forall>q \<in> set (dict_values row). q \<le> v)"
proof -
  from assms(1) obtain p ps where row: "row = p # ps" by (cases row) auto
  let ?m = "max_item p ps"
  have mem: "?m \<in> set row" using max_item_mem[of p ps] row by simp
  then have "(fst ?m, snd ?m) \<in> set row" by simp
  then have get: "dict_get row (fst ?m) = Inr (snd ?m)"
    using assms(2) by (rule dict_get_distinct[rotated])
  have mx: "py_max (dict_values row) = Inr (snd ?m)"
    by (simp add: row dict_values_def max_item_snd)
  have ge: "\<forall>q \<in> set (dict_values row). q \<le> snd ?m"
    using max_item_ge[of _ p ps] by (auto simp: row dict_values_def)
  show ?thesis using get mx ge by (auto simp: row)
qed

lemma q_inv_row:
  "q_inv ag \<Longrightarrow> dict_get (q_table ag) k = Inr row \<Longrightarrow> row \<noteq> [] \<and> distinct (map fst row)"
  by (auto simp: q_inv_def list_all_iff dest!: dict_get_mem)

lemma list_all_dict_set:
  "list_all P d \<Longrightarrow> P (k, v) \<Longrightarrow> list_all P (dict_set k v d)"
  by (induction d) auto

lemma q_inv_init_state: "q_inv ag \<Longrightarrow> q_inv (init_state k ag)"
  by (auto simp: q_inv_def init_state_def dict_from_keys_nonempty dict_from_keys_distinct
      intro!: list_all_dict_set)

lemma init_state_has_row: "\<exists>row. dict_get (q_table (init_state k ag)) k = Inr row"
  by (auto simp: init_state_def dict_get_dict_set_same dict_get_contains)

lemma init_state_fresh:
  "\<not> dict_contains (q_table ag) k
    \<Longrightarrow> dict_get (q_table (init_state k ag)) k = Inr (dict_from_keys 0 (actions ag))"
  by (simp add: init_state_def dict_get_dict_set_same)

lemma q_inv_fresh: "q_inv (QLearningScheduler lr df eps None)"
  by (simp add: q_inv_def QLearningScheduler_def ACTIONS_def)

lemma get_best_action_state: "snd (get_best_action d c h ag) = init_state (get_state_key d c h) ag"
  by (simp add: get_best_action_def Let_def split: sum.splits)

lemma q_inv_get_best_action: "q_inv ag \<Longrightarrow> q_inv (snd (get_best_action d c h ag))"
  by (simp add: get_best_action_state q_inv_init_state)

lemma get_action_state:
  "snd (get_action u i d c h explore ag) = init_state (get_state_key d c h) ag"
  by (simp add: get_action_def Let_def split: sum.splits)

lemma q_inv_get_action: "q_inv ag \<Longrightarrow> q_inv (snd (get_action u i d c h explore ag))"
  by (simp add: get_action_state q_inv_init_state)

lemma q_inv_ql_update: "q_inv ag \<Longrightarrow> q_inv (snd (ql_update st a r nx ag))"
proof -
  assume inv: "q_inv ag"
  obtain d c h where st: "st = (d, c, h)" by (cases st) auto
  let ?k = "get_state_key d c h"
  let ?ag1 = "init_state ?k ag"
  let ?ag2 = "case nx of None \<Rightarrow> ?ag1 | Some (d', c', h') \<Rightarrow> init_state (get_state_key d' c' h') ?ag1"
  have inv1: "q_inv ?ag1" using inv by (rule q_inv_init_state)
  have inv2: "q_inv ?ag2" using inv1 by (auto split: option.splits intro: q_inv_init_state)
  have wr: "q_inv (?ag2\<lparr> q_table := dict_set ?k (dict_set a v row2) (q_table ?ag2),
                             total_updates := total_updates ?ag2 + 1 \<rparr>)"
    if "dict_get (q_table ?ag2) ?k = Inr row2" for v row2
  proof -
    from q_inv_row[OF inv2 that] have "distinct (map fst row2)" by simp
    then have "distinct (map fst (dict_set a v row2))" by (rule distinct_dict_set)
    then show ?thesis using inv2
      by (auto simp: q_inv_def dict_set_nonempty intro!: list_all_dict_set)
  qed
  show ?thesis
    unfolding ql_update_def st Let_def
    using inv1 inv2 wr
    by (auto split: sum.splits option.splits prod.splits simp del: init_state_def)
qed

subsection \<open>The belief table\<close>

lemma row_ok_fresh: "row_ok (dict_from_keys \<lparr> dist_alpha = 1, dist_beta = 1 \<rparr> ARMS)"
  by (simp add: row_ok_def dict_from_keys_def ARMS_def)

lemma ts_inv_init_context: "ts_inv ag \<Longrightarrow> ts_inv (init_context k ag)"
  using row_ok_fresh by (auto simp: ts_inv_def init_context_def intro!: list_all_dict_set)

lemma init_context_has_row: "\<exists>row. dict_get (distributions (init_context k ag)) k = Inr row"
  by (auto simp: init_context_def dict_get_dict_set_same dict_get_contains)

lemma ts_inv_row: "ts_inv ag \<Longrightarrow> dict_get (distributions ag) k = Inr row \<Longrightarrow> row_ok row"
  by (auto simp: ts_inv_def list_all_iff dest!: dict_get_mem)

lemma row_ok_get:
  assumes "row_ok row" "arm \<in> set ARMS"
  shows "\<exists>p. dict_get row arm = Inr p \<and> 1 \<le> dist_alpha p \<and> 1 \<le> dist_beta p"
proof -
  from assms have "arm \<in> fst ` set row" by (metis row_ok_def set_map)
  then obtain p where "map_of row arm = Some p"
    by (metis domD dom_map_of_conv_image_fst)
  moreover then have "(arm, p) \<in> set row" by (rule map_of_SomeD)
  ultimately show ?thesis using assms(1) by (auto simp: row_ok_def dict_get_def list_all_iff)
qed

lemma row_ok_dict_set:
  assumes "row_ok row" "dict_get row arm = Inr p" "1 \<le> dist_alpha p'" "1 \<le> dist_beta p'"
  shows "row_ok (dict_set arm p' row)"
proof -
  have "arm \<in> fst ` set row" using dict_get_mem[OF assms(2)] by force
  then have "map fst (dict_set arm p' row) = map fst row" by (simp add: keys_dict_set)
  moreover have "list_all (\<lambda>(a, p). 1 \<le> dist_alpha p \<and> 1 \<le> dist_beta p) (dict_set arm p' row)"
    using assms by (auto simp: row_ok_def intro!: list_all_dict_set)
  ultimately show ?thesis using assms(1) by (simp add: row_ok_def)
qed

lemma draw_samples_ok:
  assumes "row_ok row" "set as \<subseteq> set ARMS"
  shows "\<exists>s. draw_samples draws n row as acc = Inr s \<and> (as \<noteq> [] \<or> acc \<noteq> [] \<longrightarrow> s \<noteq> [])"
  using assms(2)
proof (induction as arbitrary: n acc)
  case Nil then show ?case by simp
next
  case (Cons a as)
  then have "a \<in> set ARMS" by simp
  from row_ok_get[OF assms(1) this] obtain p where
    p: "dict_get row a = Inr p" "1 \<le> dist_alpha p" "1 \<le> dist_beta p" by blast
  from Cons.prems have "set as \<subseteq> set ARMS" by simp
  from Cons.IH[OF this, of "Suc n" "dict_set a (draws n) acc"]
  show ?case using p by (auto simp: np_random_beta_def dict_set_nonempty)
qed

lemma select_arm_ok:
  assumes "ts_inv ag"
  shows "\<exists>arm samples. select_arm draws t c h ag =
           (Inr arm,
            (init_context (get_context_key t c h) ag)
              \<lparr> total_selections := total_selections ag + 1,
                arm_history := arm_history ag @ [(get_context_key t c h, arm, samples)] \<rparr>)"
proof -
  let ?k = "get_context_key t c h"
  let ?ag1 = "init_context ?k ag"
  have inv1: "ts_inv ?ag1" using assms by (rule ts_inv_init_context)
  obtain row where row: "dict_get (distributions ?ag1) ?k = Inr row"
    using init_context_has_row by blast
  have ok: "row_ok row" using inv1 row by (rule ts_inv_row)
  have arms: "arms ?ag1 = ARMS" using inv1 by (simp add: ts_inv_def)
  from draw_samples_ok[OF ok, of ARMS draws 0 "[]"] obtain s where
    s: "draw_samples draws 0 row ARMS [] = Inr s" "s \<noteq> []" by (auto simp: ARMS_def)
  then obtain arm where arm: "py_max_key s = Inr arm" by (cases s) auto
  have cnt: "total_selections ?ag1 = total_selections ag" "arm_history ?ag1 = arm_history ag"
    by (simp_all add: init_context_def)
  have "select_arm draws t c h ag =
           (Inr arm,
            ?ag1\<lparr> total_selections := total_selections ag + 1,
                  arm_history := arm_history ag @ [(?k, arm, s)] \<rparr>)"
    by (simp add: select_arm_def Let_def row arms s arm cnt del: init_context_def)
  then show ?thesis by blast
qed

lemma counters_init_context:
  "total_selections (init_context k ag) = total_selections ag"
  "total_successes (init_context k ag) = total_successes ag"
  "arms (init_context k ag) = arms ag"
  by (simp_all add: init_context_def)

lemma select_arm_distributions:
  "distributions (snd (select_arm draws t c h ag))
     = distributions (init_context (get_context_key t c h) ag)"
  by (simp add: select_arm_def Let_def split: sum.splits)

lemma select_arm_arms: "arms (snd (select_arm draws t c h ag)) = arms ag"
  by (simp add: select_arm_def Let_def counters_init_context split: sum.splits)

lemma ts_inv_select_arm: "ts_inv ag \<Longrightarrow> ts_inv (snd (select_arm draws t c h ag))"
  using ts_inv_init_context[of ag "get_context_key t c h"]
  by (simp add: ts_inv_def select_arm_distributions select_arm_arms counters_init_context)

lemma ts_update_raises:
  assumes "dict_get (distributions (init_context (get_context_key t c h) ag))
             (get_context_key t c h) = Inr row"
    and "dict_get row arm = Inl e"
  shows "ts_update t c h arm got ag = (Inl e, init_context (get_context_key t c h) ag)"
  using assms by (simp add: ts_update_def Let_def)

lemma ts_update_success:
  assumes "dict_get (distributions (init_context (get_context_key t c h) ag))
             (get_context_key t c h) = Inr row"
    and "dict_get row arm = Inr p"
  shows "ts_update t c h arm True ag =
           (Inr (),
            (init_context (get_context_key t c h) ag)
              \<lparr> distributions :=
                  dict_set (get_context_key t c h)
                    (dict_set arm (p\<lparr> dist_alpha := dist_alpha p + 1 \<rparr>) row)
                    (distributions (init_context (get_context_key t c h) ag)),
                total_successes := total_successes ag + 1 \<rparr>)"
  using assms by (simp add: ts_update_def Let_def counters_init_context)

lemma ts_update_failure:
  assumes "dict_get (distributions (init_context (get_context_key t c h) ag))
             (get_context_key t c h) = Inr row"
    and "dict_get row arm = Inr p"
  shows "ts_update t c h arm False ag =
           (Inr (),
            (init_context (get_context_key t c h) ag)
              \<lparr> distributions :=
                  dict_set (get_context_key t c h)
                    (dict_set arm (p\<lparr> dist_beta := dist_beta p + 1 \<rparr>) row)
                    (distributions (init_context (get_context_key t c h) ag)) \<rparr>)"
  using assms by (simp add: ts_update_def Let_def)

lemma ts_inv_ts_update: "ts_inv ag \<Longrightarrow> ts_inv (snd (ts_update t c h arm got ag))"
proof -
  assume inv: "ts_inv ag"
  let ?k = "get_context_key t c h"
  let ?ag1 = "init_context ?k ag"
  have inv1: "ts_inv ?ag1" using inv by (rule ts_inv_init_context)
  obtain row where row: "dict_get (distributions ?ag1) ?k = Inr row"
    using init_context_has_row by blast
  have ok: "row_ok row" using inv1 row by (rule ts_inv_row)
  show ?thesis
  proof (cases "dict_get row arm")
    case (Inl e)
    then show ?thesis using ts_update_raises[OF row Inl] inv1 by simp
  next
    case (Inr p)
    have pa: "1 \<le> dist_alpha p" and pb: "1 \<le> dist_beta p"
      using ok dict_get_mem[OF Inr] by (auto simp: row_ok_def list_all_iff)
    have a: "row_ok (dict_set arm (p\<lparr> dist_alpha := dist_alpha p + 1 \<rparr>) row)"
      by (rule row_ok_dict_set[OF ok Inr]) (use pa pb in auto)
    have b: "row_ok (dict_set arm (p\<lparr> dist_beta := dist_beta p + 1 \<rparr>) row)"
      by (rule row_ok_dict_set[OF ok Inr]) (use pa pb in auto)
    show ?thesis
    proof (cases got)
      case True
      then show ?thesis using ts_update_success[OF row Inr] inv1 a
        by (auto simp: ts_inv_def intro!: list_all_dict_set)
    next
      case False
      then show ?thesis using ts_update_failure[OF row Inr] inv1 b
        by (auto simp: ts_inv_def intro!: list_all_dict_set)
    qed
  qed
qed

lemma get_arm_probabilities_state: "snd (get_arm_probabilities t c h ag) = ag"
  by (simp add: get_arm_probabilities_def Let_def split: sum.splits)

lemma get_best_arm_state: "snd (get_best_arm t c h ag) = ag"
  using get_arm_probabilities_state[of t c h ag]
  by (auto simp: get_best_arm_def split: prod.splits sum.splits)

lemma ts_inv_fresh: "ts_inv (ThompsonSamplingMessenger None)"
  by (simp add: ts_inv_def ThompsonSamplingMessenger_def)

lemma ts_inv_load:
  assumes "ts_inv ag" "ts_inv ag'" "snapshot_of data ag"
  shows "ts_inv (ts_load_from_dict data ag')"
proof -
  have d: "list_all (\<lambda>(k, row). row_ok row)
             (case snap_distributions data of None \<Rightarrow> [] | Some t \<Rightarrow> t)"
    using assms(1,3) by (auto simp: ts_inv_def snapshot_of_def)
  have a: "(case snap_arms data of None \<Rightarrow> arms ag' | Some xs \<Rightarrow> xs) = ARMS"
    using assms by (auto simp: ts_inv_def snapshot_of_def)
  show ?thesis by (simp add: ts_inv_def ts_load_from_dict_def d a)
qed

lemma constructor_loads:
  "ThompsonSamplingMessenger (Some data)
     = ts_load_from_dict data (ThompsonSamplingMessenger None)"
  by (simp add: ThompsonSamplingMessenger_def)

lemma snapshot_of_to_dict: "snapshot_of (ts_to_dict now ag) ag"
  by (simp add: snapshot_of_def ts_to_dict_def)

lemma ts_reachable_inv: "ts_reachable ag \<Longrightarrow> ts_inv ag"
proof (induction rule: ts_reachable.induct)
  case fresh
  show ?case by (rule ts_inv_fresh)
next
  case (restarted ag data)
  show ?case
    unfolding constructor_loads
    by (rule ts_inv_load[OF restarted.IH ts_inv_fresh restarted.hyps(2)])
next
  case (selected ag draws t c h)
  then show ?case by (simp add: ts_inv_select_arm)
next
  case (updated ag t c h arm got)
  then show ?case by (simp add: ts_inv_ts_update)
next
  case (asked ag t c h)
  then show ?case by (simp add: get_arm_probabilities_state)
next
  case (asked_best ag t c h)
  then show ?case by (simp add: get_best_arm_state)
next
  case (loaded ag ag' data)
  show ?case by (rule ts_inv_load[OF loaded.IH(1) loaded.IH(2) loaded.hyps(3)])
qed

subsection \<open>Entries of the belief table\<close>

lemma map_of_foldl_dict_set:
  "map_of (foldl (\<lambda>d k. dict_set k v d) d ks) a
     = (if a \<in> set ks then Some v else map_of d a)"
  by (induction ks arbitrary: d) (auto simp: map_of_dict_set)

lemma map_of_dict_from_keys:
  "map_of (dict_from_keys v ks) a = (if a \<in> set ks then Some v else None)"
  by (simp add: dict_from_keys_def map_of_foldl_dict_set)

lemma entry_init_context:
  "entry (init_context key ag) k a =
     (if dict_contains (distributions ag) key \<or> k \<noteq> key then entry ag k a
      else if a \<in> set (arms ag) then Some \<lparr> dist_alpha = 1, dist_beta = 1 \<rparr> else None)"
  by (auto simp: entry_def init_context_def map_of_dict_set map_of_dict_from_keys
      dict_contains_def)

lemma entry_select_arm:
  "entry (snd (select_arm draws t c h ag)) k a
     = entry (init_context (get_context_key t c h) ag) k a"
  by (simp add: entry_def select_arm_distributions)

lemma entry_row:
  "dict_get (distributions ag) k = Inr row \<Longrightarrow> entry ag k a = map_of row a"
  by (auto simp: entry_def dict_get_def split: option.splits)

lemma entry_ts_update:
  "entry (snd (ts_update t c h arm got ag)) k a =
     (case entry (init_context (get_context_key t c h) ag) (get_context_key t c h) arm of
        None \<Rightarrow> entry (init_context (get_context_key t c h) ag) k a
      | Some p \<Rightarrow>
         if k = get_context_key t c h \<and> a = arm
         then Some (if got then p\<lparr> dist_alpha := dist_alpha p + 1 \<rparr>
                    else p\<lparr> dist_beta := dist_beta p + 1 \<rparr>)
         else entry (init_context (get_context_key t c h) ag) k a)"
proof -
  let ?k = "get_context_key t c h"
  let ?ag1 = "init_context ?k ag"
  obtain row where row: "dict_get (distributions ?ag1) ?k = Inr row"
    using init_context_has_row by blast
  have r: "map_of (distributions ?ag1) ?k = Some row"
    using row by (auto simp: dict_get_def split: option.splits)
  show ?thesis
  proof (cases "dict_get row arm")
    case (Inl err)
    then have "map_of row arm = None" by (auto simp: dict_get_def split: option.splits)
    then show ?thesis using ts_update_raises[OF row Inl] r by (simp add: entry_def)
  next
    case (Inr p)
    then have m: "map_of row arm = Some p" by (auto simp: dict_get_def split: option.splits)
    show ?thesis
    proof (cases got)
      case True
      have st: "distributions (snd (ts_update t c h arm True ag))
                  = dict_set ?k (dict_set arm (p\<lparr> dist_alpha := dist_alpha p + 1 \<rparr>) row)
                      (distributions ?ag1)"
        using ts_update_success[OF row Inr] by simp
      show ?thesis using True by (simp add: entry_def st map_of_dict_set r m)
    next
      case False
      have st: "distributions (snd (ts_update t c h arm False ag))
                  = dict_set ?k (dict_set arm (p\<lparr> dist_beta := dist_beta p + 1 \<rparr>) row)
                      (distributions ?ag1)"
        using ts_update_failure[OF row Inr] by simp
      show ?thesis using False by (simp add: entry_def st map_of_dict_set r m)
    qed
  qed
qed

lemma ts_inv_entry:
  "ts_inv ag \<Longrightarrow> entry ag k a = Some p \<Longrightarrow> 1 \<le> dist_alpha p \<and> 1 \<le> dist_beta p"
  by (auto simp: ts_inv_def entry_def row_ok_def list_all_iff split: option.splits
      dest!: map_of_SomeD)

lemma ts_inv_entry_present:
  assumes "ts_inv ag" "dict_contains (distributions ag) k" "a \<in> set ARMS"
  shows "\<exists>p. entry ag k a = Some p"
proof -
  from dict_get_contains[OF assms(2)] obtain row where
    row: "dict_get (distributions ag) k = Inr row" ..
  have "row_ok row" using assms(1) row by (rule ts_inv_row)
  from row_ok_get[OF this assms(3)] obtain p where p: "dict_get row a = Inr p" by auto
  have "map_of row a = Some p"
    using p unfolding dict_get_def by (cases "map_of row a") simp_all
  then show ?thesis using entry_row[OF row, of a] by simp
qed

lemma ts_update_returns:
  assumes "ts_inv ag" "arm \<in> set ARMS"
  shows "fst (ts_update t c h arm got ag) = Inr ()"
proof -
  let ?k = "get_context_key t c h"
  let ?ag1 = "init_context ?k ag"
  obtain row where row: "dict_get (distributions ?ag1) ?k = Inr row"
    using init_context_has_row by blast
  have "row_ok row" using ts_inv_init_context[OF assms(1)] row by (rule ts_inv_row)
  from row_ok_get[OF this assms(2)] obtain p where p: "dict_get row arm = Inr p" by blast
  show ?thesis
    using ts_update_success[OF row p] ts_update_failure[OF row p] by (cases got) simp_all
qed

lemma ts_update_total_selections:
  "total_selections (snd (ts_update t c h arm got ag)) = total_selections ag"
  by (simp add: ts_update_def Let_def counters_init_context split: sum.splits)

lemma ts_update_total_successes:
  "total_successes (snd (ts_update t c h arm got ag))
     = total_successes ag + (if got \<and> fst (ts_update t c h arm got ag) = Inr () then 1 else 0)"
  by (simp add: ts_update_def Let_def counters_init_context split: sum.splits)

lemma entry_contains: "entry ag k a = Some p \<Longrightarrow> dict_contains (distributions ag) k"
  by (cases "map_of (distributions ag) k") (simp_all add: entry_def dict_contains_def)

lemma entry_absent: "\<not> dict_contains (distributions ag) k \<Longrightarrow> entry ag k a = None"
  by (simp add: entry_def dict_contains_def)

lemma entry_init_context_kept:
  assumes "entry ag k a = Some p"
  shows "entry (init_context key ag) k a = Some p"
proof (cases "dict_contains (distributions ag) key \<or> k \<noteq> key")
  case True
  then show ?thesis using assms by (simp add: entry_init_context)
next
  case False
  then have "\<not> dict_contains (distributions ag) k" by simp
  then show ?thesis using entry_contains[OF assms] by simp
qed

lemma entry_init_context_belief:
  assumes "ts_inv ag" "arm \<in> set ARMS"
  shows "entry (init_context key ag) key arm = Some (belief ag key arm)"
proof (cases "dict_contains (distributions ag) key")
  case True
  from ts_inv_entry_present[OF assms(1) True assms(2)] obtain p where
    p: "entry ag key arm = Some p" ..
  show ?thesis using True p by (simp add: entry_init_context belief_def)
next
  case False
  have "arm \<in> set (arms ag)" using assms by (simp add: ts_inv_def)
  then show ?thesis using False entry_absent[OF False, of arm]
    by (simp add: entry_init_context belief_def)
qed

lemma rows_initialised:
  assumes "ts_inv ag" "\<not> dict_contains (distributions ag) (get_context_key t c h)" "a \<in> set ARMS"
  shows "entry (snd (select_arm draws t c h ag)) (get_context_key t c h) a
           = Some \<lparr> dist_alpha = 1, dist_beta = 1 \<rparr>"
proof -
  have "a \<in> set (arms ag)" using assms(1,3) by (simp add: ts_inv_def)
  then show ?thesis using assms(2) by (simp add: entry_select_arm entry_init_context)
qed

lemma update_adds_one:
  assumes "ts_inv ag" "arm \<in> set ARMS"
  shows "entry (snd (ts_update t c h arm got ag)) (get_context_key t c h) arm
           = Some (if got
                   then (belief ag (get_context_key t c h) arm)
                          \<lparr> dist_alpha := dist_alpha (belief ag (get_context_key t c h) arm) + 1 \<rparr>
                   else (belief ag (get_context_key t c h) arm)
                          \<lparr> dist_beta := dist_beta (belief ag (get_context_key t c h) arm) + 1 \<rparr>)"
  by (simp add: entry_ts_update entry_init_context_belief[OF assms])

lemma update_never_decreases:
  assumes "entry ag k a = Some p"
  shows "\<exists>p'. entry (snd (ts_update t c h arm got ag)) k a = Some p'
            \<and> dist_alpha p \<le> dist_alpha p' \<and> dist_beta p \<le> dist_beta p'
            \<and> (\<not> (k = get_context_key t c h \<and> a = arm) \<longrightarrow> p' = p)"
proof -
  let ?key = "get_context_key t c h"
  have kept: "entry (init_context ?key ag) k a = Some p"
    using assms by (rule entry_init_context_kept)
  show ?thesis
  proof (cases "entry (init_context ?key ag) ?key arm")
    case None
    then show ?thesis using kept by (simp add: entry_ts_update)
  next
    case (Some q)
    show ?thesis
    proof (cases "k = ?key \<and> a = arm")
      case True
      then have "q = p" using Some kept by simp
      then show ?thesis using True Some by (simp add: entry_ts_update)
    next
      case False
      then show ?thesis using Some kept by (auto simp: entry_ts_update)
    qed
  qed
qed

lemma select_never_changes:
  "entry ag k a = Some p \<Longrightarrow> entry (snd (select_arm draws t c h ag)) k a = Some p"
  by (simp add: entry_select_arm entry_init_context_kept)

subsection \<open>The table after each operation\<close>

lemma row_ok_unknown_arm: "row_ok row \<Longrightarrow> a \<notin> set ARMS \<Longrightarrow> map_of row a = None"
proof -
  assume r: "row_ok row" and a: "a \<notin> set ARMS"
  have "fst ` set row = set ARMS" using r by (simp add: row_ok_def flip: set_map)
  then show ?thesis using a by (simp add: map_of_eq_None_iff)
qed

lemma ts_inv_entry_unknown_arm:
  assumes "ts_inv ag" "a \<notin> set ARMS"
  shows "entry ag k a = None"
proof (cases "map_of (distributions ag) k")
  case None
  then show ?thesis by (simp add: entry_def)
next
  case (Some row)
  then have "dict_get (distributions ag) k = Inr row" by (simp add: dict_get_def)
  with assms(1) have "row_ok row" by (rule ts_inv_row)
  then have "map_of row a = None" using assms(2) by (rule row_ok_unknown_arm)
  then show ?thesis using Some by (simp add: entry_def)
qed

lemma entry_after_select:
  assumes "ts_inv ag"
  shows "entry (snd (select_arm draws t c h ag)) k a =
           (if k = get_context_key t c h \<and> \<not> dict_contains (distributions ag) (get_context_key t c h)
            then (if a \<in> set ARMS then Some \<lparr> dist_alpha = 1, dist_beta = 1 \<rparr> else None)
            else entry ag k a)"
proof -
  have "arms ag = ARMS" using assms by (simp add: ts_inv_def)
  then show ?thesis by (auto simp: entry_select_arm entry_init_context)
qed

lemma entry_after_update:
  assumes "ts_inv ag"
  shows "entry (snd (ts_update t c h arm got ag)) k a =
           (if k = get_context_key t c h \<and> a = arm \<and> arm \<in> set ARMS
            then Some (if got
                       then (belief ag (get_context_key t c h) arm)
                              \<lparr> dist_alpha := dist_alpha (belief ag (get_context_key t c h) arm) + 1 \<rparr>
                       else (belief ag (get_context_key t c h) arm)
                              \<lparr> dist_beta := dist_beta (belief ag (get_context_key t c h) arm) + 1 \<rparr>)
            else if k = get_context_key t c h
                    \<and> \<not> dict_contains (distributions ag) (get_context_key t c h)
            then (if a \<in> set ARMS then Some \<lparr> dist_alpha = 1, dist_beta = 1 \<rparr> else None)
            else entry ag k a)"
proof -
  let ?key = "get_context_key t c h"
  have arms: "arms ag = ARMS" using assms by (simp add: ts_inv_def)
  have other: "\<And>k a. entry (init_context ?key ag) k a =
           (if k = ?key \<and> \<not> dict_contains (distributions ag) ?key
            then (if a \<in> set ARMS then Some \<lparr> dist_alpha = 1, dist_beta = 1 \<rparr> else None)
            else entry ag k a)"
    using arms by (auto simp: entry_init_context)
  show ?thesis
  proof (cases "arm \<in> set ARMS")
    case True
    have e: "entry (init_context ?key ag) ?key arm = Some (belief ag ?key arm)"
      using assms True by (rule entry_init_context_belief)
    show ?thesis
      unfolding entry_ts_update e using True by (simp add: other)
  next
    case False
    have e: "entry (init_context ?key ag) ?key arm = None"
      using ts_inv_init_context[OF assms] False by (rule ts_inv_entry_unknown_arm)
    show ?thesis
      unfolding entry_ts_update e using False by (simp add: other)
  qed
qed

lemma entry_after_load:
  assumes "snapshot_of data src"
  shows "entry (ts_load_from_dict data ag') k a
           = (if snap_distributions data = None then None else entry src k a)"
  using assms by (auto simp: entry_def ts_load_from_dict_def snapshot_of_def)

subsection \<open>Substrings and snapshots\<close>

lemma starts_with_iff: "starts_with w s \<longleftrightarrow> (\<exists>suf. s = w @ suf)"
  by (induction w s rule: starts_with.induct) auto

lemma str_in_iff: "str_in w s \<longleftrightarrow> (\<exists>pre suf. s = pre @ w @ suf)"
proof (induction s)
  case Nil
  show ?case by auto
next
  case (Cons c s)
  show ?case
  proof
    assume "str_in w (c # s)"
    then consider "starts_with w (c # s)" | "str_in w s" by auto
    then show "\<exists>pre suf. c # s = pre @ w @ suf"
    proof cases
      case 1
      then obtain suf where "c # s = w @ suf" unfolding starts_with_iff ..
      then have "c # s = [] @ w @ suf" by simp
      then show ?thesis by blast
    next
      case 2
      then obtain pre suf where "s = pre @ w @ suf" unfolding Cons.IH by blast
      then have "c # s = (c # pre) @ w @ suf" by simp
      then show ?thesis by blast
    qed
  next
    assume "\<exists>pre suf. c # s = pre @ w @ suf"
    then obtain pre suf where eq: "c # s = pre @ w @ suf" by blast
    show "str_in w (c # s)"
    proof (cases pre)
      case Nil
      then have "starts_with w (c # s)" using eq unfolding starts_with_iff by auto
      then show ?thesis by simp
    next
      case (Cons x pre')
      then have "s = pre' @ w @ suf" using eq by simp
      then have "str_in w s" unfolding Cons.IH by blast
      then show ?thesis by simp
    qed
  qed
qed

lemma get_best_action_cong:
  "q_table a = q_table b \<Longrightarrow> actions a = actions b
     \<Longrightarrow> fst (get_best_action d c h a) = fst (get_best_action d c h b)"
  by (simp add: get_best_action_def init_state_def Let_def split: sum.splits)

lemma get_arm_probabilities_cong:
  "distributions a = distributions b \<Longrightarrow> arms a = arms b
     \<Longrightarrow> fst (get_arm_probabilities t c h a) = fst (get_arm_probabilities t c h b)"
  by (simp add: get_arm_probabilities_def Let_def split: sum.splits)

lemma get_best_action_result:
  "fst (get_best_action d c h ag) =
     (case dict_get (q_table (init_state (get_state_key d c h) ag)) (get_state_key d c h) of
        Inl e \<Rightarrow> Inl e
      | Inr q_values \<Rightarrow>
         (case py_max_key q_values of
            Inl e \<Rightarrow> Inl e
          | Inr best_action \<Rightarrow>
             (case dict_get q_values best_action of
                Inl e \<Rightarrow> Inl e
              | Inr best_q \<Rightarrow> Inr (best_action, best_q))))"
  by (simp add: get_best_action_def Let_def split: sum.splits)

lemma init_state_again:
  "q_table (init_state k (ag\<lparr> q_table := q_table (init_state k ag) \<rparr>))
     = q_table (init_state k ag)"
  by (simp add: init_state_def dict_contains_def map_of_dict_set)

lemma get_best_action_again:
  "fst (get_best_action d c h (ag\<lparr> q_table := q_table (init_state (get_state_key d c h) ag) \<rparr>))
     = fst (get_best_action d c h ag)"
  unfolding get_best_action_result init_state_again ..

lemma init_state_table_cong:
  "q_table a = q_table b \<Longrightarrow> actions a = actions b
     \<Longrightarrow> q_table (init_state k a) = q_table (init_state k b)"
  by (simp add: init_state_def)

lemma get_best_action_kept:
  "dict_contains (q_table ag) (get_state_key d c h) \<Longrightarrow> snd (get_best_action d c h ag) = ag"
  by (simp add: get_best_action_state init_state_def)

subsection \<open>The first maximiser of a row\<close>

lemma max_item_first:
  "\<exists>pre post. best # ps = pre @ max_item best ps # post
      \<and> (\<forall>p \<in> set pre. snd p < snd (max_item best ps))"
proof (induction ps arbitrary: best)
  case Nil
  have "best # [] = [] @ max_item best [] # [] \<and> (\<forall>p \<in> set []. snd p < snd (max_item best []))"
    by simp
  then show ?case by blast
next
  case (Cons q ps)
  define b where "b = (if snd q > snd best then q else best)"
  define m where "m = max_item b ps"
  from Cons[of b] obtain pre post where
    dec: "b # ps = pre @ m # post" and lt: "\<forall>p \<in> set pre. snd p < snd m"
    unfolding m_def by blast
  have m: "max_item best (q # ps) = m" by (simp add: m_def b_def)
  have bm: "snd b \<le> snd m"
    unfolding m_def by (rule max_item_ge) simp
  have "snd q \<le> snd b" by (simp add: b_def)
  then have qm: "snd q \<le> snd m" using bm by simp
  show ?case
  proof (cases "snd q > snd best")
    case True
    then have bq: "b = q" by (simp add: b_def)
    have lb: "snd best < snd m" using True qm by simp
    have "best # q # ps = (best # pre) @ m # post" using dec bq by simp
    moreover have "\<forall>p \<in> set (best # pre). snd p < snd m" using lt lb by simp
    ultimately show ?thesis unfolding m by blast
  next
    case False
    then have bb: "b = best" by (simp add: b_def)
    show ?thesis
    proof (cases pre)
      case Nil
      have "best = m" using dec bb Nil by simp
      then have "best # q # ps = [] @ m # (q # ps) \<and> (\<forall>p \<in> set []. snd p < snd m)"
        by simp
      then show ?thesis unfolding m by blast
    next
      case (Cons x pre')
      have x: "x = best" and ps: "ps = pre' @ m # post" using dec bb Cons by simp_all
      have "snd best < snd m" using lt Cons x by simp
      then have q: "snd q < snd m" using False by simp
      have "best # q # ps = (best # q # pre') @ m # post" using ps by simp
      moreover have "\<forall>p \<in> set (best # q # pre'). snd p < snd m"
        using lt Cons x q by simp
      ultimately show ?thesis unfolding m by blast
    qed
  qed
qed

lemma max_item_all_le: "\<forall>p \<in> set ps. snd p \<le> snd best \<Longrightarrow> max_item best ps = best"
  by (induction ps arbitrary: best) auto

lemma foldl_dict_set_head:
  "\<exists>r'. foldl (\<lambda>d k. dict_set k v d) ((k0, v) # r) ks = (k0, v) # r'"
  by (induction ks arbitrary: r) auto

lemma dict_from_keys_head: "\<exists>r. dict_from_keys v (k # ks) = (k, v) # r"
  using foldl_dict_set_head[of v k "[]" ks] by (simp add: dict_from_keys_def)

lemma py_max_key_dict_from_keys:
  assumes "ks \<noteq> []"
  shows "py_max_key (dict_from_keys (0::real) ks) = Inr (hd ks)"
proof -
  from assms obtain k ks' where ks: "ks = k # ks'" by (cases ks) auto
  from dict_from_keys_head[of "0::real" k ks'] obtain r where
    r: "dict_from_keys (0::real) (k # ks') = (k, 0) # r" ..
  have "\<forall>p \<in> set r. snd p \<le> 0"
    using dict_from_keys_values[of "0::real" "k # ks'"] unfolding r by auto
  then have "max_item (k, 0::real) r = (k, 0)" by (simp add: max_item_all_le)
  then show ?thesis by (simp add: ks r)
qed

lemma py_max_key_first:
  assumes "row \<noteq> []" "distinct (map fst row)"
  shows "\<exists>a v pre post. py_max_key row = Inr a \<and> dict_get row a = Inr v
            \<and> row = pre @ (a, v) # post \<and> (\<forall>p \<in> set pre. snd p < v)
            \<and> py_max (dict_values row) = Inr v \<and> (\<forall>q \<in> set (dict_values row). q \<le> v)"
proof -
  from assms(1) obtain p ps where row: "row = p # ps" by (cases row) auto
  let ?m = "max_item p ps"
  from max_item_first[of p ps] obtain pre post where
    dec: "p # ps = pre @ ?m # post" and lt: "\<forall>x \<in> set pre. snd x < snd ?m" by blast
  have mem: "(fst ?m, snd ?m) \<in> set row" using max_item_mem[of p ps] row by simp
  have get: "dict_get row (fst ?m) = Inr (snd ?m)"
    using assms(2) mem by (rule dict_get_distinct)
  have mx: "py_max (dict_values row) = Inr (snd ?m)"
    by (simp add: row dict_values_def max_item_snd)
  have ge: "\<forall>q \<in> set (dict_values row). q \<le> snd ?m"
    using max_item_ge[of _ p ps] by (auto simp: row dict_values_def)
  have key: "py_max_key row = Inr (fst ?m)" by (simp add: row)
  have d: "row = pre @ (fst ?m, snd ?m) # post" using dec row by simp
  show ?thesis using key get d lt mx ge by blast
qed

lemma init_state_seen:
  "dict_get (q_table ag) k = Inr row \<Longrightarrow> init_state k ag = ag"
  by (auto simp: init_state_def dict_get_def dict_contains_def split: option.splits)

lemma dict_set_append: "map_of d k = None \<Longrightarrow> dict_set k v d = d @ [(k, v)]"
  by (induction d) (auto split: if_splits)

lemma init_state_unseen:
  "\<not> dict_contains (q_table ag) k
    \<Longrightarrow> init_state k ag = ag\<lparr> q_table := q_table ag @ [(k, dict_from_keys 0 (actions ag))] \<rparr>"
  by (simp add: init_state_def dict_contains_def dict_set_append)

lemma keys_dict_from_keys: "set (map fst (dict_from_keys v ks)) = set ks"
proof -
  have "fst ` set (dict_from_keys v ks) = {a. map_of (dict_from_keys v ks) a \<noteq> None}"
    by (simp add: dom_map_of_conv_image_fst[symmetric] dom_def)
  then show ?thesis by (simp add: map_of_dict_from_keys)
qed

lemma get_best_action_seen:
  assumes "q_inv ag" "dict_get (q_table ag) (get_state_key d c h) = Inr row"
  shows "snd (get_best_action d c h ag) = ag
       \<and> (\<exists>a v pre post.
             fst (get_best_action d c h ag) = Inr (a, v)
           \<and> dict_get row a = Inr v
           \<and> py_max (dict_values row) = Inr v
           \<and> (\<forall>q \<in> set (dict_values row). q \<le> v)
           \<and> row = pre @ (a, v) # post \<and> (\<forall>p \<in> set pre. snd p < v))"
proof -
  have st: "init_state (get_state_key d c h) ag = ag" using assms(2) by (rule init_state_seen)
  from q_inv_row[OF assms] have ne: "row \<noteq> []" and di: "distinct (map fst row)" by auto
  from py_max_key_first[OF ne di] obtain a v pre post where
    a: "py_max_key row = Inr a" and v: "dict_get row a = Inr v"
    and dec: "row = pre @ (a, v) # post" and lt: "\<forall>p \<in> set pre. snd p < v"
    and mx: "py_max (dict_values row) = Inr v" and ge: "\<forall>q \<in> set (dict_values row). q \<le> v"
    by blast
  have res: "get_best_action d c h ag = (Inr (a, v), ag)"
    by (simp add: get_best_action_def Let_def st assms(2) a v)
  have "fst (get_best_action d c h ag) = Inr (a, v)
           \<and> dict_get row a = Inr v
           \<and> py_max (dict_values row) = Inr v
           \<and> (\<forall>q \<in> set (dict_values row). q \<le> v)
           \<and> row = pre @ (a, v) # post \<and> (\<forall>p \<in> set pre. snd p < v)"
    using res v mx ge dec lt by simp
  then have "\<exists>a v pre post.
             fst (get_best_action d c h ag) = Inr (a, v)
           \<and> dict_get row a = Inr v
           \<and> py_max (dict_values row) = Inr v
           \<and> (\<forall>q \<in> set (dict_values row). q \<le> v)
           \<and> row = pre @ (a, v) # post \<and> (\<forall>p \<in> set pre. snd p < v)"
    by blast
  then show ?thesis using res by simp
qed

lemma get_best_action_unseen:
  assumes "q_inv ag" "\<not> dict_contains (q_table ag) (get_state_key d c h)"
  shows "fst (get_best_action d c h ag) = Inr (hd (actions ag), 0)
       \<and> snd (get_best_action d c h ag)
           = ag\<lparr> q_table := q_table ag
                   @ [(get_state_key d c h, dict_from_keys 0 (actions ag))] \<rparr>"
proof -
  let ?k = "get_state_key d c h"
  have ne: "actions ag \<noteq> []" using assms(1) by (simp add: q_inv_def)
  have row: "dict_get (q_table (init_state ?k ag)) ?k = Inr (dict_from_keys 0 (actions ag))"
    using assms(2) by (rule init_state_fresh)
  have a: "py_max_key (dict_from_keys (0::real) (actions ag)) = Inr (hd (actions ag))"
    using ne by (rule py_max_key_dict_from_keys)
  have v: "dict_get (dict_from_keys (0::real) (actions ag)) (hd (actions ag)) = Inr 0"
    using ne by (simp add: dict_get_def map_of_dict_from_keys)
  have res: "get_best_action d c h ag = (Inr (hd (actions ag), 0), init_state ?k ag)"
    by (simp add: get_best_action_def Let_def row a v)
  show ?thesis using res init_state_unseen[OF assms(2)] by simp
qed

section \<open>Single-update determinism\<close>

text \<open>
  C1. From an empty table with learning rate 0.5 and discount factor 0.9, the call
  \<^verbatim>\<open>update(state=(4, "startup", True), action="wait_5d", reward=10, next_state=None)\<close>
  returns normally, stores 5 for \<^verbatim>\<open>wait_5d\<close> in the row of that state while the five other
  actions of the row stay at 0, and \<^verbatim>\<open>get_best_action\<close> on the state then returns
  \<^verbatim>\<open>("wait_5d", 5.0)\<close>. The exploration rate plays no part.
\<close>

theorem single_update_determinism:
  "(let r = ql_update (4, ''startup'', True) ''wait_5d'' 10 None
              (QLearningScheduler 0.5 0.9 eps None)
    in fst r = Inr () \<and>
       dict_get (q_table (snd r)) (get_state_key 4 ''startup'' True)
         = Inr [(''wait_1d'', 0), (''wait_3d'', 0), (''wait_5d'', 5),
                (''wait_7d'', 0), (''wait_10d'', 0), (''wait_14d'', 0)] \<and>
       fst (get_best_action 4 ''startup'' True (snd r)) = Inr (''wait_5d'', 5))"
  by (simp add: ql_update_def QLearningScheduler_def ACTIONS_def init_state_def dict_contains_def
      dict_get_def dict_from_keys_def get_state_key_def day_bucket_def str_bool_def
      get_best_action_def)

section \<open>The best action is a maximiser of its row\<close>

text \<open>
  C4. On a well-formed agent \<^verbatim>\<open>get_best_action\<close> returns normally for every state. When the
  table holds a row for the state, the call leaves the agent as it was, and the answer
  (action, value) is read from that stored row: the value is the one stored for the action,
  it is the maximum of the row, and the action is the first key of the row that has it.
  When the table holds no row for the state, the call appends the all-zero row over the
  action list under the state's key, changes nothing else, and answers the first action
  with the value 0. In both cases the answer is a maximiser of the row the table holds for
  the state after the call.
\<close>

theorem get_best_action_max:
  assumes "q_inv ag"
  shows "(\<forall>row. dict_get (q_table ag) (get_state_key d c h) = Inr row \<longrightarrow>
            snd (get_best_action d c h ag) = ag
          \<and> (\<exists>a v pre post.
                fst (get_best_action d c h ag) = Inr (a, v)
              \<and> dict_get row a = Inr v
              \<and> py_max (dict_values row) = Inr v
              \<and> (\<forall>q \<in> set (dict_values row). q \<le> v)
              \<and> row = pre @ (a, v) # post \<and> (\<forall>p \<in> set pre. snd p < v)))
       \<and> (\<not> dict_contains (q_table ag) (get_state_key d c h) \<longrightarrow>
            fst (get_best_action d c h ag) = Inr (hd (actions ag), 0)
          \<and> snd (get_best_action d c h ag)
              = ag\<lparr> q_table := q_table ag
                      @ [(get_state_key d c h, dict_from_keys 0 (actions ag))] \<rparr>
          \<and> set (map fst (dict_from_keys (0::real) (actions ag))) = set (actions ag)
          \<and> (\<forall>q \<in> set (dict_values (dict_from_keys (0::real) (actions ag))). q = 0))
       \<and> (\<exists>a v row.
            fst (get_best_action d c h ag) = Inr (a, v)
          \<and> dict_get (q_table (snd (get_best_action d c h ag))) (get_state_key d c h) = Inr row
          \<and> dict_get row a = Inr v
          \<and> py_max (dict_values row) = Inr v
          \<and> (\<forall>q \<in> set (dict_values row). q \<le> v)
          \<and> (\<not> dict_contains (q_table ag) (get_state_key d c h)
               \<longrightarrow> row = dict_from_keys 0 (actions ag) \<and> v = 0))"
proof (intro conjI allI impI)
  fix row assume r: "dict_get (q_table ag) (get_state_key d c h) = Inr row"
  from get_best_action_seen[OF assms r]
  show "snd (get_best_action d c h ag) = ag"
    and "\<exists>a v pre post.
                fst (get_best_action d c h ag) = Inr (a, v)
              \<and> dict_get row a = Inr v
              \<and> py_max (dict_values row) = Inr v
              \<and> (\<forall>q \<in> set (dict_values row). q \<le> v)
              \<and> row = pre @ (a, v) # post \<and> (\<forall>p \<in> set pre. snd p < v)"
    by simp_all
next
  assume u: "\<not> dict_contains (q_table ag) (get_state_key d c h)"
  from get_best_action_unseen[OF assms u]
  show "fst (get_best_action d c h ag) = Inr (hd (actions ag), 0)"
    and "snd (get_best_action d c h ag)
              = ag\<lparr> q_table := q_table ag
                      @ [(get_state_key d c h, dict_from_keys 0 (actions ag))] \<rparr>"
    by simp_all
  show "set (map fst (dict_from_keys (0::real) (actions ag))) = set (actions ag)"
    by (rule keys_dict_from_keys)
  show "\<forall>q \<in> set (dict_values (dict_from_keys (0::real) (actions ag))). q = 0"
    using dict_from_keys_values[of "0::real" "actions ag"] by (auto simp: dict_values_def)
next
  let ?k = "get_state_key d c h"
  let ?ag1 = "init_state ?k ag"
  obtain row where row: "dict_get (q_table ?ag1) ?k = Inr row"
    using init_state_has_row by blast
  have inv1: "q_inv ?ag1" using assms by (rule q_inv_init_state)
  from q_inv_row[OF inv1 row] have ne: "row \<noteq> []" and di: "distinct (map fst row)" by auto
  from py_max_key_ok[OF ne di] obtain a v where
    a: "py_max_key row = Inr a" and v: "dict_get row a = Inr v"
    and mx: "py_max (dict_values row) = Inr v" and ge: "\<forall>q \<in> set (dict_values row). q \<le> v"
    by blast
  have res: "get_best_action d c h ag = (Inr (a, v), ?ag1)"
    by (simp add: get_best_action_def Let_def row a v)
  have fresh: "row = dict_from_keys 0 (actions ag) \<and> v = 0"
    if "\<not> dict_contains (q_table ag) ?k"
  proof -
    have r: "row = dict_from_keys 0 (actions ag)"
      using init_state_fresh[OF that] row by simp
    have "(a, v) \<in> set row" using v by (rule dict_get_mem)
    then have "v \<in> snd ` set row" by force
    then show ?thesis using dict_from_keys_values[of "0::real" "actions ag"] r by auto
  qed
  show "\<exists>a v row.
            fst (get_best_action d c h ag) = Inr (a, v)
          \<and> dict_get (q_table (snd (get_best_action d c h ag))) (get_state_key d c h) = Inr row
          \<and> dict_get row a = Inr v
          \<and> py_max (dict_values row) = Inr v
          \<and> (\<forall>q \<in> set (dict_values row). q \<le> v)
          \<and> (\<not> dict_contains (q_table ag) (get_state_key d c h)
               \<longrightarrow> row = dict_from_keys 0 (actions ag) \<and> v = 0)"
    using res row v mx ge fresh by auto
qed

theorem get_best_action_max_witness:
  "q_inv (snd (ql_update (4, ''startup'', True) ''wait_5d'' 10 None
                 (QLearningScheduler 0.5 0.9 0.1 None)))
   \<and> dict_get (q_table (snd (ql_update (4, ''startup'', True) ''wait_5d'' 10 None
                                (QLearningScheduler 0.5 0.9 0.1 None))))
         (get_state_key 4 ''startup'' True)
       = Inr [(''wait_1d'', 0), (''wait_3d'', 0), (''wait_5d'', 5),
              (''wait_7d'', 0), (''wait_10d'', 0), (''wait_14d'', 0)]
   \<and> get_best_action 4 ''startup'' True
         (snd (ql_update (4, ''startup'', True) ''wait_5d'' 10 None
                 (QLearningScheduler 0.5 0.9 0.1 None)))
       = (Inr (''wait_5d'', 5),
          snd (ql_update (4, ''startup'', True) ''wait_5d'' 10 None
                 (QLearningScheduler 0.5 0.9 0.1 None)))
   \<and> \<not> dict_contains
         (q_table (snd (ql_update (4, ''startup'', True) ''wait_5d'' 10 None
                          (QLearningScheduler 0.5 0.9 0.1 None))))
         (get_state_key 7 ''enterprise'' False)
   \<and> fst (get_best_action 7 ''enterprise'' False
            (snd (ql_update (4, ''startup'', True) ''wait_5d'' 10 None
                    (QLearningScheduler 0.5 0.9 0.1 None))))
       = Inr (''wait_1d'', 0)"
proof -
  define ag where "ag = snd (ql_update (4, ''startup'', True) ''wait_5d'' 10 None
                               (QLearningScheduler 0.5 0.9 0.1 None))"
  define row :: "(string, real) dict" where
    "row = [(''wait_1d'', 0), (''wait_3d'', 0), (''wait_5d'', 5),
            (''wait_7d'', 0), (''wait_10d'', 0), (''wait_14d'', 0)]"
  note defs = ql_update_def QLearningScheduler_def ACTIONS_def init_state_def
    dict_contains_def dict_get_def dict_from_keys_def get_state_key_def day_bucket_def
    str_bool_def
  have h: "q_inv ag" by (simp add: ag_def defs q_inv_def)
  have s: "dict_get (q_table ag) (get_state_key 4 ''startup'' True) = Inr row"
    by (simp add: ag_def row_def defs)
  have u: "\<not> dict_contains (q_table ag) (get_state_key 7 ''enterprise'' False)"
    by (simp add: ag_def defs)
  have acts: "hd (actions ag) = ''wait_1d''" by (simp add: ag_def defs)
  note seen = get_best_action_max[OF h, of 4 "''startup''" True, THEN conjunct1, rule_format, OF s]
  note unseen = get_best_action_max[OF h, of 7 "''enterprise''" False,
      THEN conjunct2, THEN conjunct1, rule_format, OF u]
  from seen obtain a v where
    st: "snd (get_best_action 4 ''startup'' True ag) = ag"
    and av: "fst (get_best_action 4 ''startup'' True ag) = Inr (a, v)"
    and get: "dict_get row a = Inr v"
    and ge: "\<forall>q \<in> set (dict_values row). q \<le> v"
    by blast
  have "(a, v) \<in> set row" using get by (rule dict_get_mem)
  moreover have "5 \<le> v" using ge by (simp add: row_def dict_values_def)
  ultimately have "a = ''wait_5d'' \<and> v = 5" by (auto simp: row_def)
  then have r1: "get_best_action 4 ''startup'' True ag = (Inr (''wait_5d'', 5), ag)"
    using av st by (simp add: prod_eq_iff)
  have r2: "fst (get_best_action 7 ''enterprise'' False ag) = Inr (''wait_1d'', 0)"
    using unseen acts by simp
  show ?thesis
    using h s r1 u r2 unfolding ag_def row_def by (intro conjI)
qed

section \<open>Selection and success counters\<close>

text \<open>
  C3. On a well-formed agent every call of \<^verbatim>\<open>select_arm\<close> returns an arm and leaves
  \<^verbatim>\<open>total_selections\<close> one higher (and \<^verbatim>\<open>total_successes\<close> as it was). A call of
  \<^verbatim>\<open>update\<close> never changes \<^verbatim>\<open>total_selections\<close>; it leaves \<^verbatim>\<open>total_successes\<close> one higher
  when it returns and the flag is true, and unchanged otherwise; with an arm of the fixed
  arm set it returns. So a selection is counted once, at selection time, whether or not an
  update for it ever follows.
\<close>

theorem selection_and_success_counters:
  assumes "ts_inv ag"
  shows "(\<exists>arm. fst (select_arm draws t c h ag) = Inr arm)
       \<and> total_selections (snd (select_arm draws t c h ag)) = total_selections ag + 1
       \<and> total_successes (snd (select_arm draws t c h ag)) = total_successes ag
       \<and> total_selections (snd (ts_update t' c' h' arm got ag)) = total_selections ag
       \<and> total_successes (snd (ts_update t' c' h' arm got ag))
           = total_successes ag
             + (if got \<and> fst (ts_update t' c' h' arm got ag) = Inr () then 1 else 0)
       \<and> (arm \<in> set ARMS \<longrightarrow> fst (ts_update t' c' h' arm got ag) = Inr ())"
proof -
  from select_arm_ok[OF assms, of draws t c h] obtain a smp where
    sel: "select_arm draws t c h ag =
            (Inr a, (init_context (get_context_key t c h) ag)
               \<lparr> total_selections := total_selections ag + 1,
                 arm_history := arm_history ag @ [(get_context_key t c h, a, smp)] \<rparr>)"
    by blast
  have s1: "\<exists>arm. fst (select_arm draws t c h ag) = Inr arm" using sel by simp
  have s2: "total_selections (snd (select_arm draws t c h ag)) = total_selections ag + 1"
    using sel by simp
  have s3: "total_successes (snd (select_arm draws t c h ag)) = total_successes ag"
    using sel by (simp add: counters_init_context)
  show ?thesis
  proof (intro conjI impI)
    show "\<exists>arm. fst (select_arm draws t c h ag) = Inr arm" by (rule s1)
    show "total_selections (snd (select_arm draws t c h ag)) = total_selections ag + 1"
      by (rule s2)
    show "total_successes (snd (select_arm draws t c h ag)) = total_successes ag" by (rule s3)
    show "total_selections (snd (ts_update t' c' h' arm got ag)) = total_selections ag"
      by (rule ts_update_total_selections)
    show "total_successes (snd (ts_update t' c' h' arm got ag))
            = total_successes ag
              + (if got \<and> fst (ts_update t' c' h' arm got ag) = Inr () then 1 else 0)"
      by (rule ts_update_total_successes)
    show "fst (ts_update t' c' h' arm got ag) = Inr ()" if "arm \<in> set ARMS"
      using assms that by (rule ts_update_returns)
  qed
qed

theorem selection_and_success_counters_witness:
  "ts_inv (ThompsonSamplingMessenger None)
   \<and> ''casual'' \<in> set ARMS
   \<and> total_selections
       (snd (select_arm (\<lambda>n. 1 / 2) ''Recruiter'' ''casual'' True (ThompsonSamplingMessenger None)))
       = 1
   \<and> total_selections
       (snd (ts_update ''Recruiter'' ''casual'' True ''casual'' True
               (ThompsonSamplingMessenger None)))
       = 0
   \<and> total_successes
       (snd (ts_update ''Recruiter'' ''casual'' True ''casual'' True
               (ThompsonSamplingMessenger None)))
       = 1
   \<and> total_successes
       (snd (ts_update ''Recruiter'' ''casual'' True ''casual'' False
               (ThompsonSamplingMessenger None)))
       = 0"
proof -
  have inv: "ts_inv (ThompsonSamplingMessenger None)" by (rule ts_inv_fresh)
  have mem: "''casual'' \<in> set ARMS" by (simp add: ARMS_def)
  have z: "total_selections (ThompsonSamplingMessenger None) = 0"
    "total_successes (ThompsonSamplingMessenger None) = 0"
    by (simp_all add: ThompsonSamplingMessenger_def)
  note t = selection_and_success_counters[OF inv, of "\<lambda>n. 1 / 2" "''Recruiter''" "''casual''" True
      "''Recruiter''" "''casual''" True "''casual''" True]
  note f = selection_and_success_counters[OF inv, of "\<lambda>n. 1 / 2" "''Recruiter''" "''casual''" True
      "''Recruiter''" "''casual''" True "''casual''" False]
  show ?thesis using inv mem z t f by simp
qed

section \<open>Belief parameters never fall below one\<close>

text \<open>
  C8, as the code has it. In every reachable agent each entry of the belief table has
  \<open>alpha \<ge> 1\<close> and \<open>beta \<ge> 1\<close>. The table after \<^verbatim>\<open>select_arm\<close> is the table before,
  with the row of the context added when it had none: \<open>alpha = beta = 1\<close> for each of
  the three arms. The table after \<^verbatim>\<open>update\<close> is the table before, with the same row added
  when the context had none, and then, when the arm is one of the fixed arm set, exactly 1
  added to \<open>alpha\<close> (on success) or to \<open>beta\<close> (otherwise) of that arm's entry, the
  other parameter and all other entries as they were; such an update returns normally. So
  every entry that was in the table before an update or a selection is still there, with
  neither parameter smaller. The two read operations return the agent they were given.
  \<^verbatim>\<open>load_from_dict\<close> is the exception: it replaces the table by the table of the snapshot
  (by the empty table when the snapshot has none), whatever the table held before.
\<close>

theorem belief_parameters_at_least_one:
  assumes "ts_reachable ag"
  shows "(\<forall>k a p. entry ag k a = Some p \<longrightarrow> 1 \<le> dist_alpha p \<and> 1 \<le> dist_beta p)
       \<and> (\<forall>k a. entry (snd (select_arm draws t c h ag)) k a =
            (if k = get_context_key t c h
                \<and> \<not> dict_contains (distributions ag) (get_context_key t c h)
             then (if a \<in> set ARMS then Some \<lparr> dist_alpha = 1, dist_beta = 1 \<rparr> else None)
             else entry ag k a))
       \<and> (\<forall>k a. entry (snd (ts_update t c h arm got ag)) k a =
            (if k = get_context_key t c h \<and> a = arm \<and> arm \<in> set ARMS
             then Some (if got
                        then (belief ag (get_context_key t c h) arm)
                               \<lparr> dist_alpha := dist_alpha (belief ag (get_context_key t c h) arm) + 1 \<rparr>
                        else (belief ag (get_context_key t c h) arm)
                               \<lparr> dist_beta := dist_beta (belief ag (get_context_key t c h) arm) + 1 \<rparr>)
             else if k = get_context_key t c h
                     \<and> \<not> dict_contains (distributions ag) (get_context_key t c h)
             then (if a \<in> set ARMS then Some \<lparr> dist_alpha = 1, dist_beta = 1 \<rparr> else None)
             else entry ag k a))
       \<and> (arm \<in> set ARMS \<longrightarrow> fst (ts_update t c h arm got ag) = Inr ())
       \<and> (\<forall>k a p. entry ag k a = Some p \<longrightarrow>
            (\<exists>p'. entry (snd (ts_update t c h arm got ag)) k a = Some p'
                 \<and> dist_alpha p \<le> dist_alpha p' \<and> dist_beta p \<le> dist_beta p'
                 \<and> (\<not> (k = get_context_key t c h \<and> a = arm) \<longrightarrow> p' = p))
            \<and> entry (snd (select_arm draws t c h ag)) k a = Some p)
       \<and> snd (get_arm_probabilities t c h ag) = ag
       \<and> snd (get_best_arm t c h ag) = ag
       \<and> (ts_reachable src \<and> snapshot_of data src \<longrightarrow>
            (\<forall>k a. entry (ts_load_from_dict data ag) k a
                     = (if snap_distributions data = None then None else entry src k a))
          \<and> (\<forall>k a p. entry (ts_load_from_dict data ag) k a = Some p
                     \<longrightarrow> 1 \<le> dist_alpha p \<and> 1 \<le> dist_beta p))"
proof -
  have inv: "ts_inv ag" using assms by (rule ts_reachable_inv)
  have c1: "\<forall>k a p. entry ag k a = Some p \<longrightarrow> 1 \<le> dist_alpha p \<and> 1 \<le> dist_beta p"
    using ts_inv_entry[OF inv] by blast
  have c2: "\<forall>k a. entry (snd (select_arm draws t c h ag)) k a =
            (if k = get_context_key t c h
                \<and> \<not> dict_contains (distributions ag) (get_context_key t c h)
             then (if a \<in> set ARMS then Some \<lparr> dist_alpha = 1, dist_beta = 1 \<rparr> else None)
             else entry ag k a)"
    using entry_after_select[OF inv] by blast
  have c3: "\<forall>k a. entry (snd (ts_update t c h arm got ag)) k a =
            (if k = get_context_key t c h \<and> a = arm \<and> arm \<in> set ARMS
             then Some (if got
                        then (belief ag (get_context_key t c h) arm)
                               \<lparr> dist_alpha := dist_alpha (belief ag (get_context_key t c h) arm) + 1 \<rparr>
                        else (belief ag (get_context_key t c h) arm)
                               \<lparr> dist_beta := dist_beta (belief ag (get_context_key t c h) arm) + 1 \<rparr>)
             else if k = get_context_key t c h
                     \<and> \<not> dict_contains (distributions ag) (get_context_key t c h)
             then (if a \<in> set ARMS then Some \<lparr> dist_alpha = 1, dist_beta = 1 \<rparr> else None)
             else entry ag k a)"
    using entry_after_update[OF inv] by blast
  have c4: "arm \<in> set ARMS \<longrightarrow> fst (ts_update t c h arm got ag) = Inr ()"
    using ts_update_returns[OF inv] by blast
  have c5: "\<forall>k a p. entry ag k a = Some p \<longrightarrow>
            (\<exists>p'. entry (snd (ts_update t c h arm got ag)) k a = Some p'
                 \<and> dist_alpha p \<le> dist_alpha p' \<and> dist_beta p \<le> dist_beta p'
                 \<and> (\<not> (k = get_context_key t c h \<and> a = arm) \<longrightarrow> p' = p))
            \<and> entry (snd (select_arm draws t c h ag)) k a = Some p"
  proof (intro allI impI conjI)
    fix k a p assume e: "entry ag k a = Some p"
    then show "\<exists>p'. entry (snd (ts_update t c h arm got ag)) k a = Some p'
                 \<and> dist_alpha p \<le> dist_alpha p' \<and> dist_beta p \<le> dist_beta p'
                 \<and> (\<not> (k = get_context_key t c h \<and> a = arm) \<longrightarrow> p' = p)"
      by (rule update_never_decreases)
    from e show "entry (snd (select_arm draws t c h ag)) k a = Some p"
      by (rule select_never_changes)
  qed
  have c6: "snd (get_arm_probabilities t c h ag) = ag"
    by (rule get_arm_probabilities_state)
  have c7: "snd (get_best_arm t c h ag) = ag"
    by (rule get_best_arm_state)
  have c8: "ts_reachable src \<and> snapshot_of data src \<longrightarrow>
            (\<forall>k a. entry (ts_load_from_dict data ag) k a
                     = (if snap_distributions data = None then None else entry src k a))
          \<and> (\<forall>k a p. entry (ts_load_from_dict data ag) k a = Some p
                     \<longrightarrow> 1 \<le> dist_alpha p \<and> 1 \<le> dist_beta p)"
  proof (intro impI conjI allI)
    fix k a assume h: "ts_reachable src \<and> snapshot_of data src"
    then show "entry (ts_load_from_dict data ag) k a
                 = (if snap_distributions data = None then None else entry src k a)"
      by (simp add: entry_after_load)
  next
    fix k a p
    assume h: "ts_reachable src \<and> snapshot_of data src"
      and e: "entry (ts_load_from_dict data ag) k a = Some p"
    have "ts_inv src" using h by (simp add: ts_reachable_inv)
    then have "ts_inv (ts_load_from_dict data ag)" using inv h by (simp add: ts_inv_load)
    from ts_inv_entry[OF this e]
    show "1 \<le> dist_alpha p" and "1 \<le> dist_beta p" by simp_all
  qed
  show ?thesis
    by (intro conjI) (rule c1 c2 c3 c4 c5 c6 c7 c8)+
qed

text \<open>
  The theorem at the agent a restart leaves: the table a first run learned (one success
  for \<^verbatim>\<open>casual\<close> with a recruiter) comes back through a snapshot that holds only the
  table and the selection counter. An update without response takes the entry from (2, 1)
  to (2, 2) and leaves \<^verbatim>\<open>formal\<close> at (1, 1); an update for a context met for the first
  time creates its row with the two other arms at (1, 1); loading the snapshot of the
  first run again puts the entry back to (2, 1).
\<close>

theorem belief_parameters_at_least_one_witness:
  "ts_reachable
      (ThompsonSamplingMessenger (Some
          \<lparr> snap_distributions = Some (distributions
                  (snd (ts_update ''Recruiter'' ''casual'' True ''casual'' True
                     (ThompsonSamplingMessenger None)))),
            snap_arms = None, snap_total_selections = Some 1,
            snap_total_successes = None, snap_ts_last_updated = None \<rparr>))
   \<and> ''casual'' \<in> set ARMS
   \<and> entry
      (ThompsonSamplingMessenger (Some
          \<lparr> snap_distributions = Some (distributions
                  (snd (ts_update ''Recruiter'' ''casual'' True ''casual'' True
                     (ThompsonSamplingMessenger None)))),
            snap_arms = None, snap_total_selections = Some 1,
            snap_total_successes = None, snap_ts_last_updated = None \<rparr>)) ''recruiter_casual_True'' ''casual'' = Some \<lparr> dist_alpha = 2, dist_beta = 1 \<rparr>
   \<and> fst (ts_update ''Recruiter'' ''casual'' True ''casual'' False
      (ThompsonSamplingMessenger (Some
          \<lparr> snap_distributions = Some (distributions
                  (snd (ts_update ''Recruiter'' ''casual'' True ''casual'' True
                     (ThompsonSamplingMessenger None)))),
            snap_arms = None, snap_total_selections = Some 1,
            snap_total_successes = None, snap_ts_last_updated = None \<rparr>))) = Inr ()
   \<and> entry (snd (ts_update ''Recruiter'' ''casual'' True ''casual'' False
      (ThompsonSamplingMessenger (Some
          \<lparr> snap_distributions = Some (distributions
                  (snd (ts_update ''Recruiter'' ''casual'' True ''casual'' True
                     (ThompsonSamplingMessenger None)))),
            snap_arms = None, snap_total_selections = Some 1,
            snap_total_successes = None, snap_ts_last_updated = None \<rparr>))))
       ''recruiter_casual_True'' ''casual'' = Some \<lparr> dist_alpha = 2, dist_beta = 2 \<rparr>
   \<and> entry (snd (ts_update ''Recruiter'' ''casual'' True ''casual'' False
      (ThompsonSamplingMessenger (Some
          \<lparr> snap_distributions = Some (distributions
                  (snd (ts_update ''Recruiter'' ''casual'' True ''casual'' True
                     (ThompsonSamplingMessenger None)))),
            snap_arms = None, snap_total_selections = Some 1,
            snap_total_successes = None, snap_ts_last_updated = None \<rparr>))))
       ''recruiter_casual_True'' ''formal'' = Some \<lparr> dist_alpha = 1, dist_beta = 1 \<rparr>
   \<and> \<not> dict_contains (distributions
      (ThompsonSamplingMessenger (Some
          \<lparr> snap_distributions = Some (distributions
                  (snd (ts_update ''Recruiter'' ''casual'' True ''casual'' True
                     (ThompsonSamplingMessenger None)))),
            snap_arms = None, snap_total_selections = Some 1,
            snap_total_successes = None, snap_ts_last_updated = None \<rparr>))) ''manager_formal_False''
   \<and> entry (snd (ts_update ''Engineering Manager'' ''formal'' False ''formal'' True
      (ThompsonSamplingMessenger (Some
          \<lparr> snap_distributions = Some (distributions
                  (snd (ts_update ''Recruiter'' ''casual'' True ''casual'' True
                     (ThompsonSamplingMessenger None)))),
            snap_arms = None, snap_total_selections = Some 1,
            snap_total_successes = None, snap_ts_last_updated = None \<rparr>))))
       ''manager_formal_False'' ''formal'' = Some \<lparr> dist_alpha = 2, dist_beta = 1 \<rparr>
   \<and> entry (snd (ts_update ''Engineering Manager'' ''formal'' False ''formal'' True
      (ThompsonSamplingMessenger (Some
          \<lparr> snap_distributions = Some (distributions
                  (snd (ts_update ''Recruiter'' ''casual'' True ''casual'' True
                     (ThompsonSamplingMessenger None)))),
            snap_arms = None, snap_total_selections = Some 1,
            snap_total_successes = None, snap_ts_last_updated = None \<rparr>))))
       ''manager_formal_False'' ''casual'' = Some \<lparr> dist_alpha = 1, dist_beta = 1 \<rparr>
   \<and> entry (snd (select_arm (\<lambda>n. 1 / 2) ''Engineering Manager'' ''formal'' False
      (ThompsonSamplingMessenger (Some
          \<lparr> snap_distributions = Some (distributions
                  (snd (ts_update ''Recruiter'' ''casual'' True ''casual'' True
                     (ThompsonSamplingMessenger None)))),
            snap_arms = None, snap_total_selections = Some 1,
            snap_total_successes = None, snap_ts_last_updated = None \<rparr>))))
       ''manager_formal_False'' ''connection_focused''
       = Some \<lparr> dist_alpha = 1, dist_beta = 1 \<rparr>
   \<and> ts_reachable
        (snd (ts_update ''Recruiter'' ''casual'' True ''casual'' True
                (ThompsonSamplingMessenger None)))
   \<and> snapshot_of
        \<lparr> snap_distributions = Some (distributions
                  (snd (ts_update ''Recruiter'' ''casual'' True ''casual'' True
                     (ThompsonSamplingMessenger None)))),
            snap_arms = None, snap_total_selections = Some 1,
            snap_total_successes = None, snap_ts_last_updated = None \<rparr>
        (snd (ts_update ''Recruiter'' ''casual'' True ''casual'' True
                (ThompsonSamplingMessenger None)))
   \<and> entry (ts_load_from_dict
        \<lparr> snap_distributions = Some (distributions
                  (snd (ts_update ''Recruiter'' ''casual'' True ''casual'' True
                     (ThompsonSamplingMessenger None)))),
            snap_arms = None, snap_total_selections = Some 1,
            snap_total_successes = None, snap_ts_last_updated = None \<rparr>
      (ThompsonSamplingMessenger (Some
          \<lparr> snap_distributions = Some (distributions
                  (snd (ts_update ''Recruiter'' ''casual'' True ''casual'' True
                     (ThompsonSamplingMessenger None)))),
            snap_arms = None, snap_total_selections = Some 1,
            snap_total_successes = None, snap_ts_last_updated = None \<rparr>))) ''recruiter_casual_True'' ''casual''
       = Some \<lparr> dist_alpha = 2, dist_beta = 1 \<rparr>"
proof -
  define a0 where "a0 = (snd (ts_update ''Recruiter'' ''casual'' True ''casual'' True
                     (ThompsonSamplingMessenger None)))"
  define dd where "dd = \<lparr> snap_distributions = Some (distributions a0),
           snap_arms = None, snap_total_selections = Some 1, snap_total_successes = None,
           snap_ts_last_updated = None \<rparr>"
  define r where "r = ThompsonSamplingMessenger (Some dd)"
  have key: "get_context_key ''Recruiter'' ''casual'' True = ''recruiter_casual_True''"
    by (simp add: get_context_key_def title_category_def lower_def lower_char_def
        any_word_in_def str_bool_def)
  have key2: "get_context_key ''Engineering Manager'' ''formal'' False = ''manager_formal_False''"
    by (simp add: get_context_key_def title_category_def lower_def lower_char_def
        any_word_in_def str_bool_def)
  have t0: "distributions a0
              = [(''recruiter_casual_True'',
                  [(''formal'', \<lparr> dist_alpha = 1, dist_beta = 1 \<rparr>),
                   (''casual'', \<lparr> dist_alpha = 2, dist_beta = 1 \<rparr>),
                   (''connection_focused'', \<lparr> dist_alpha = 1, dist_beta = 1 \<rparr>)])]"
    by (simp add: a0_def ts_update_def key init_context_def ThompsonSamplingMessenger_def
        ARMS_def dict_contains_def dict_get_def dict_from_keys_def)
  have reach0: "ts_reachable a0"
    unfolding a0_def by (rule ts_reachable.updated[OF ts_reachable.fresh])
  have snap: "snapshot_of dd a0"
    by (simp add: snapshot_of_def dd_def)
  have reach: "ts_reachable r"
    unfolding r_def by (rule ts_reachable.restarted[OF reach0 snap])
  have tr: "distributions r = distributions a0"
    by (simp add: r_def dd_def ThompsonSamplingMessenger_def ts_load_from_dict_def)
  have mem: "''casual'' \<in> set ARMS" by (simp add: ARMS_def)
  have mems: "''formal'' \<in> set ARMS" "''connection_focused'' \<in> set ARMS"
    by (simp_all add: ARMS_def)
  have e0: "entry r ''recruiter_casual_True'' ''casual''
              = Some \<lparr> dist_alpha = 2, dist_beta = 1 \<rparr>"
    by (simp add: entry_def tr t0)
  have f0: "entry r ''recruiter_casual_True'' ''formal''
              = Some \<lparr> dist_alpha = 1, dist_beta = 1 \<rparr>"
    by (simp add: entry_def tr t0)
  have b: "belief r ''recruiter_casual_True'' ''casual'' = \<lparr> dist_alpha = 2, dist_beta = 1 \<rparr>"
    using e0 by (simp add: belief_def)
  have u: "\<not> dict_contains (distributions r) ''manager_formal_False''"
    by (simp add: dict_contains_def tr t0)
  have b2: "belief r ''manager_formal_False'' ''formal'' = \<lparr> dist_alpha = 1, dist_beta = 1 \<rparr>"
    using u by (simp add: belief_def entry_absent)
  note th1 = belief_parameters_at_least_one[OF reach,
      of "\<lambda>n. 1 / 2" "''Recruiter''" "''casual''" True "''casual''" False a0 dd]
  note th2 = belief_parameters_at_least_one[OF reach,
      of "\<lambda>n. 1 / 2" "''Engineering Manager''" "''formal''" False "''formal''" True a0 dd]
  have r1: "fst (ts_update ''Recruiter'' ''casual'' True ''casual'' False r) = Inr ()"
    using th1 mem by simp
  have upd1: "\<And>k a. entry (snd (ts_update ''Recruiter'' ''casual'' True ''casual'' False r)) k a =
            (if k = ''recruiter_casual_True'' \<and> a = ''casual''
             then Some \<lparr> dist_alpha = 2, dist_beta = 2 \<rparr>
             else if k = ''recruiter_casual_True''
                     \<and> \<not> dict_contains (distributions r) ''recruiter_casual_True''
             then (if a \<in> set ARMS then Some \<lparr> dist_alpha = 1, dist_beta = 1 \<rparr> else None)
             else entry r k a)"
    using th1[THEN conjunct2, THEN conjunct2, THEN conjunct1] mem by (simp add: key b)
  have e1: "entry (snd (ts_update ''Recruiter'' ''casual'' True ''casual'' False r))
              ''recruiter_casual_True'' ''casual'' = Some \<lparr> dist_alpha = 2, dist_beta = 2 \<rparr>"
    by (simp add: upd1)
  have contains: "dict_contains (distributions r) ''recruiter_casual_True''"
    by (simp add: dict_contains_def tr t0)
  have e2: "entry (snd (ts_update ''Recruiter'' ''casual'' True ''casual'' False r))
              ''recruiter_casual_True'' ''formal'' = Some \<lparr> dist_alpha = 1, dist_beta = 1 \<rparr>"
    by (simp add: upd1 contains f0)
  have upd2: "\<And>k a. entry (snd (ts_update ''Engineering Manager'' ''formal'' False ''formal'' True r)) k a =
            (if k = ''manager_formal_False'' \<and> a = ''formal''
             then Some \<lparr> dist_alpha = 2, dist_beta = 1 \<rparr>
             else if k = ''manager_formal_False''
             then (if a \<in> set ARMS then Some \<lparr> dist_alpha = 1, dist_beta = 1 \<rparr> else None)
             else entry r k a)"
    using th2[THEN conjunct2, THEN conjunct2, THEN conjunct1] mems(1) u by (simp add: key2 b2)
  have e3: "entry (snd (ts_update ''Engineering Manager'' ''formal'' False ''formal'' True r))
              ''manager_formal_False'' ''formal'' = Some \<lparr> dist_alpha = 2, dist_beta = 1 \<rparr>"
    by (simp add: upd2)
  have e4: "entry (snd (ts_update ''Engineering Manager'' ''formal'' False ''formal'' True r))
              ''manager_formal_False'' ''casual'' = Some \<lparr> dist_alpha = 1, dist_beta = 1 \<rparr>"
    using mem by (simp add: upd2)
  have sel: "\<And>k a. entry (snd (select_arm (\<lambda>n. 1 / 2) ''Engineering Manager'' ''formal'' False r)) k a =
            (if k = ''manager_formal_False''
             then (if a \<in> set ARMS then Some \<lparr> dist_alpha = 1, dist_beta = 1 \<rparr> else None)
             else entry r k a)"
    using th2[THEN conjunct2, THEN conjunct1] u by (simp add: key2)
  have e5: "entry (snd (select_arm (\<lambda>n. 1 / 2) ''Engineering Manager'' ''formal'' False r))
              ''manager_formal_False'' ''connection_focused''
              = Some \<lparr> dist_alpha = 1, dist_beta = 1 \<rparr>"
    using mems(2) by (simp add: sel)
  have ld: "\<And>k a. entry (ts_load_from_dict dd r) k a
              = (if snap_distributions dd = None then None else entry a0 k a)"
    using th1 reach0 snap by simp
  have some: "snap_distributions dd = Some (distributions a0)" by (simp add: dd_def)
  have e6: "entry (ts_load_from_dict dd r) ''recruiter_casual_True'' ''casual''
              = Some \<lparr> dist_alpha = 2, dist_beta = 1 \<rparr>"
  proof -
    have "entry (ts_load_from_dict dd r) ''recruiter_casual_True'' ''casual''
            = entry a0 ''recruiter_casual_True'' ''casual''"
      by (simp add: ld some)
    also have "\<dots> = Some \<lparr> dist_alpha = 2, dist_beta = 1 \<rparr>"
      by (simp add: entry_def t0)
    finally show ?thesis .
  qed
  show ?thesis
    using reach mem e0 r1 e1 e2 u e3 e4 e5 reach0 snap e6 unfolding r_def dd_def a0_def
    by (intro conjI)
qed

text \<open>
  C8 as the specification words it says that no operation ever lowers a parameter.
  \<^verbatim>\<open>load_from_dict\<close> does. One messenger has seen a response and then none for
  \<^verbatim>\<open>casual\<close> with a recruiter, so its entry is (2, 2); another has seen no response
  only, so its entry is (1, 2). Loading the snapshot of the second into the first leaves
  a reachable agent whose entry is (1, 2): \<open>alpha\<close> went from 2 to 1.
\<close>

theorem load_lowers_a_parameter:
  "ts_reachable
     (snd (ts_update ''Recruiter'' ''casual'' True ''casual'' False
        (snd (ts_update ''Recruiter'' ''casual'' True ''casual'' True
           (ThompsonSamplingMessenger None)))))
   \<and> ts_reachable
     (snd (ts_update ''Recruiter'' ''casual'' True ''casual'' False
        (ThompsonSamplingMessenger None)))
   \<and> entry
       (snd (ts_update ''Recruiter'' ''casual'' True ''casual'' False
          (snd (ts_update ''Recruiter'' ''casual'' True ''casual'' True
             (ThompsonSamplingMessenger None)))))
       ''recruiter_casual_True'' ''casual'' = Some \<lparr> dist_alpha = 2, dist_beta = 2 \<rparr>
   \<and> ts_reachable
       (ts_load_from_dict
          (ts_to_dict ''2025-01-01T00:00:00''
             (snd (ts_update ''Recruiter'' ''casual'' True ''casual'' False
                (ThompsonSamplingMessenger None))))
          (snd (ts_update ''Recruiter'' ''casual'' True ''casual'' False
             (snd (ts_update ''Recruiter'' ''casual'' True ''casual'' True
                (ThompsonSamplingMessenger None))))))
   \<and> entry
       (ts_load_from_dict
          (ts_to_dict ''2025-01-01T00:00:00''
             (snd (ts_update ''Recruiter'' ''casual'' True ''casual'' False
                (ThompsonSamplingMessenger None))))
          (snd (ts_update ''Recruiter'' ''casual'' True ''casual'' False
             (snd (ts_update ''Recruiter'' ''casual'' True ''casual'' True
                (ThompsonSamplingMessenger None))))))
       ''recruiter_casual_True'' ''casual'' = Some \<lparr> dist_alpha = 1, dist_beta = 2 \<rparr>"
proof -
  define a1 where "a1 = snd (ts_update ''Recruiter'' ''casual'' True ''casual'' True
                               (ThompsonSamplingMessenger None))"
  define a2 where "a2 = snd (ts_update ''Recruiter'' ''casual'' True ''casual'' False a1)"
  define b1 where "b1 = snd (ts_update ''Recruiter'' ''casual'' True ''casual'' False
                               (ThompsonSamplingMessenger None))"
  have key: "get_context_key ''Recruiter'' ''casual'' True = ''recruiter_casual_True''"
    by (simp add: get_context_key_def title_category_def lower_def lower_char_def
        any_word_in_def str_bool_def)
  note defs = ts_update_def key init_context_def ThompsonSamplingMessenger_def
    ARMS_def dict_contains_def dict_get_def dict_from_keys_def
  have t1: "distributions a1
              = [(''recruiter_casual_True'',
                  [(''formal'', \<lparr> dist_alpha = 1, dist_beta = 1 \<rparr>),
                   (''casual'', \<lparr> dist_alpha = 2, dist_beta = 1 \<rparr>),
                   (''connection_focused'', \<lparr> dist_alpha = 1, dist_beta = 1 \<rparr>)])]"
    by (simp add: a1_def defs)
  have t2: "distributions a2
              = [(''recruiter_casual_True'',
                  [(''formal'', \<lparr> dist_alpha = 1, dist_beta = 1 \<rparr>),
                   (''casual'', \<lparr> dist_alpha = 2, dist_beta = 2 \<rparr>),
                   (''connection_focused'', \<lparr> dist_alpha = 1, dist_beta = 1 \<rparr>)])]"
    by (simp add: a2_def ts_update_def key init_context_def dict_contains_def dict_get_def t1)
  have t3: "distributions b1
              = [(''recruiter_casual_True'',
                  [(''formal'', \<lparr> dist_alpha = 1, dist_beta = 1 \<rparr>),
                   (''casual'', \<lparr> dist_alpha = 1, dist_beta = 2 \<rparr>),
                   (''connection_focused'', \<lparr> dist_alpha = 1, dist_beta = 1 \<rparr>)])]"
    by (simp add: b1_def defs)
  have r1: "ts_reachable a1"
    unfolding a1_def by (rule ts_reachable.updated[OF ts_reachable.fresh])
  have r2: "ts_reachable a2"
    unfolding a2_def by (rule ts_reachable.updated[OF r1])
  have r3: "ts_reachable b1"
    unfolding b1_def by (rule ts_reachable.updated[OF ts_reachable.fresh])
  have r4: "ts_reachable (ts_load_from_dict (ts_to_dict ''2025-01-01T00:00:00'' b1) a2)"
    by (rule ts_reachable.loaded[OF r3 r2 snapshot_of_to_dict])
  have e2: "entry a2 ''recruiter_casual_True'' ''casual''
              = Some \<lparr> dist_alpha = 2, dist_beta = 2 \<rparr>"
    by (simp add: entry_def t2)
  have e4: "entry (ts_load_from_dict (ts_to_dict ''2025-01-01T00:00:00'' b1) a2)
              ''recruiter_casual_True'' ''casual'' = Some \<lparr> dist_alpha = 1, dist_beta = 2 \<rparr>"
    by (simp add: entry_def ts_load_from_dict_def ts_to_dict_def t3)
  show ?thesis
    using r2 r3 e2 r4 e4 unfolding a2_def a1_def b1_def by (intro conjI)
qed

section \<open>Belief update determinism\<close>

text \<open>
  C2. For an agent with the three fixed arms and a context it has no row for,
  \<^verbatim>\<open>get_arm_probabilities\<close> returns 0.5 for each arm; the call
  \<^verbatim>\<open>update(context, "casual", got_response=True)\<close> returns, and afterwards
  \<^verbatim>\<open>get_arm_probabilities\<close> for the same context returns 2/3 for \<^verbatim>\<open>casual\<close> and 0.5 for the
  other two arms.
\<close>

theorem belief_update_determinism:
  assumes "arms ag = ARMS"
    and "\<not> dict_contains (distributions ag) (get_context_key t c h)"
  shows "fst (get_arm_probabilities t c h ag)
           = Inr [(''formal'', 1 / 2), (''casual'', 1 / 2), (''connection_focused'', 1 / 2)]
       \<and> fst (ts_update t c h ''casual'' True ag) = Inr ()
       \<and> fst (get_arm_probabilities t c h (snd (ts_update t c h ''casual'' True ag)))
           = Inr [(''formal'', 1 / 2), (''casual'', 2 / 3), (''connection_focused'', 1 / 2)]"
proof -
  let ?k = "get_context_key t c h"
  let ?row = "[(''formal'', \<lparr> dist_alpha = 1, dist_beta = 1 \<rparr>),
               (''casual'', \<lparr> dist_alpha = 1, dist_beta = 1 \<rparr>),
               (''connection_focused'', \<lparr> dist_alpha = 1, dist_beta = 1 \<rparr>)]"
  let ?row' = "[(''formal'', \<lparr> dist_alpha = 1, dist_beta = 1 \<rparr>),
                (''casual'', \<lparr> dist_alpha = 2, dist_beta = 1 \<rparr>),
                (''connection_focused'', \<lparr> dist_alpha = 1, dist_beta = 1 \<rparr>)]"
  have fresh: "dict_from_keys \<lparr> dist_alpha = 1, dist_beta = 1 \<rparr> ARMS = ?row"
    by (simp add: dict_from_keys_def ARMS_def)
  have ic: "init_context ?k ag = ag\<lparr> distributions := dict_set ?k ?row (distributions ag) \<rparr>"
    using assms by (simp add: init_context_def fresh)
  have p1: "fst (get_arm_probabilities t c h ag)
              = Inr [(''formal'', 1 / 2), (''casual'', 1 / 2), (''connection_focused'', 1 / 2)]"
    using assms by (simp add: get_arm_probabilities_def dict_from_keys_def ARMS_def)
  have row: "dict_get (distributions (init_context ?k ag)) ?k = Inr ?row"
    by (simp add: ic dict_get_dict_set_same)
  have arm: "dict_get ?row ''casual'' = Inr \<lparr> dist_alpha = 1, dist_beta = 1 \<rparr>"
    by (simp add: dict_get_def)
  note upd = ts_update_success[OF row arm]
  have p2: "fst (ts_update t c h ''casual'' True ag) = Inr ()" by (simp add: upd)
  have d: "distributions (snd (ts_update t c h ''casual'' True ag))
             = dict_set ?k ?row' (distributions (init_context ?k ag))"
    by (simp add: upd)
  have a: "arms (snd (ts_update t c h ''casual'' True ag)) = ARMS"
    using assms(1) by (simp add: upd counters_init_context)
  have p3: "fst (get_arm_probabilities t c h (snd (ts_update t c h ''casual'' True ag)))
              = Inr [(''formal'', 1 / 2), (''casual'', 2 / 3), (''connection_focused'', 1 / 2)]"
    by (simp add: get_arm_probabilities_def d a dict_contains_def map_of_dict_set
        dict_get_dict_set_same ARMS_def dict_get_def)
  show ?thesis using p1 p2 p3 by (intro conjI)
qed

theorem belief_update_determinism_witness:
  "arms (ThompsonSamplingMessenger None) = ARMS
   \<and> \<not> dict_contains (distributions (ThompsonSamplingMessenger None))
         (get_context_key ''Recruiter'' ''casual'' True)
   \<and> fst (get_arm_probabilities ''Recruiter'' ''casual'' True (ThompsonSamplingMessenger None))
       = Inr [(''formal'', 1 / 2), (''casual'', 1 / 2), (''connection_focused'', 1 / 2)]
   \<and> fst (get_arm_probabilities ''Recruiter'' ''casual'' True
            (snd (ts_update ''Recruiter'' ''casual'' True ''casual'' True
                    (ThompsonSamplingMessenger None))))
       = Inr [(''formal'', 1 / 2), (''casual'', 2 / 3), (''connection_focused'', 1 / 2)]"
proof -
  have a: "arms (ThompsonSamplingMessenger None) = ARMS"
    by (simp add: ThompsonSamplingMessenger_def)
  have u: "\<not> dict_contains (distributions (ThompsonSamplingMessenger None))
             (get_context_key ''Recruiter'' ''casual'' True)"
    by (simp add: ThompsonSamplingMessenger_def dict_contains_def)
  note th = belief_update_determinism[OF a u]
  show ?thesis using a u th by (intro conjI) simp_all
qed

section \<open>Asking for probabilities does not change the agent\<close>

text \<open>
  C9. \<^verbatim>\<open>get_arm_probabilities\<close> on a context whose key is absent from the belief table of
  an agent with the three fixed arms returns 0.5 for each of the three arms and leaves the
  agent exactly as it was: no row is added and no counter changes.
\<close>

theorem get_arm_probabilities_unseen:
  assumes "arms ag = ARMS"
    and "\<not> dict_contains (distributions ag) (get_context_key t c h)"
  shows "get_arm_probabilities t c h ag
           = (Inr [(''formal'', 1 / 2), (''casual'', 1 / 2), (''connection_focused'', 1 / 2)], ag)
       \<and> distributions (snd (get_arm_probabilities t c h ag)) = distributions ag
       \<and> total_selections (snd (get_arm_probabilities t c h ag)) = total_selections ag
       \<and> total_successes (snd (get_arm_probabilities t c h ag)) = total_successes ag"
  using assms
  by (simp add: get_arm_probabilities_def dict_from_keys_def ARMS_def)

theorem get_arm_probabilities_unseen_witness:
  "arms (snd (ts_update ''Recruiter'' ''casual'' True ''casual'' True
                (ThompsonSamplingMessenger None))) = ARMS
   \<and> \<not> dict_contains
         (distributions (snd (ts_update ''Recruiter'' ''casual'' True ''casual'' True
                                (ThompsonSamplingMessenger None))))
         (get_context_key ''VP Data'' ''formal'' False)
   \<and> get_arm_probabilities ''VP Data'' ''formal'' False
       (snd (ts_update ''Recruiter'' ''casual'' True ''casual'' True
               (ThompsonSamplingMessenger None)))
       = (Inr [(''formal'', 1 / 2), (''casual'', 1 / 2), (''connection_focused'', 1 / 2)],
          snd (ts_update ''Recruiter'' ''casual'' True ''casual'' True
                 (ThompsonSamplingMessenger None)))"
proof -
  define ag where "ag = snd (ts_update ''Recruiter'' ''casual'' True ''casual'' True
                               (ThompsonSamplingMessenger None))"
  note keys = get_context_key_def title_category_def lower_def lower_char_def
    any_word_in_def str_bool_def
  have a: "arms ag = ARMS"
    by (simp add: ag_def ts_update_def keys init_context_def ThompsonSamplingMessenger_def
        ARMS_def dict_contains_def dict_get_def dict_from_keys_def)
  have u: "\<not> dict_contains (distributions ag) (get_context_key ''VP Data'' ''formal'' False)"
    by (simp add: ag_def ts_update_def keys init_context_def ThompsonSamplingMessenger_def
        ARMS_def dict_contains_def dict_get_def dict_from_keys_def)
  from get_arm_probabilities_unseen[OF a u]
  have r: "get_arm_probabilities ''VP Data'' ''formal'' False ag
             = (Inr [(''formal'', 1 / 2), (''casual'', 1 / 2), (''connection_focused'', 1 / 2)], ag)"
    by simp
  show ?thesis using a u r unfolding ag_def by (intro conjI)
qed

section \<open>Snapshots round-trip\<close>

text \<open>
  C5. Loading the snapshot \<^verbatim>\<open>to_dict\<close> makes of an agent into another instance (by
  \<^verbatim>\<open>load_from_dict\<close>, or through the constructor's \<^verbatim>\<open>load_from_dict\<close> argument) gives
  an instance with the table and the action or arm list of the original, whose
  \<^verbatim>\<open>get_best_action\<close> (scheduler) and \<^verbatim>\<open>get_arm_probabilities\<close> (messenger) outputs equal
  the original's for every state and context, whatever the original went through before.

  In Python the snapshot holds the original's table itself, not a copy, so after the load
  both instances share one table. That cannot make the answers differ.
  \<^verbatim>\<open>get_arm_probabilities\<close> never writes; \<^verbatim>\<open>get_best_action\<close> writes nothing when the
  table holds a row for the state (the previously touched states), and when it does add
  the all-zero row through one instance, the other instance, asked on the table with that
  row, gives the same answer.
\<close>

theorem snapshot_round_trip:
  "fst (get_best_action d c h (ql_load_from_dict (ql_to_dict now ag) other))
     = fst (get_best_action d c h ag)
   \<and> fst (get_best_action d c h (QLearningScheduler lr df eps (Some (ql_to_dict now ag))))
     = fst (get_best_action d c h ag)
   \<and> fst (get_arm_probabilities t cu hc (ts_load_from_dict (ts_to_dict now' tag) tother))
     = fst (get_arm_probabilities t cu hc tag)
   \<and> fst (get_arm_probabilities t cu hc (ThompsonSamplingMessenger (Some (ts_to_dict now' tag))))
     = fst (get_arm_probabilities t cu hc tag)
   \<and> q_table (ql_load_from_dict (ql_to_dict now ag) other) = q_table ag
   \<and> actions (ql_load_from_dict (ql_to_dict now ag) other) = actions ag
   \<and> distributions (ts_load_from_dict (ts_to_dict now' tag) tother) = distributions tag
   \<and> arms (ts_load_from_dict (ts_to_dict now' tag) tother) = arms tag
   \<and> (dict_contains (q_table ag) (get_state_key d c h) \<longrightarrow>
        snd (get_best_action d c h (ql_load_from_dict (ql_to_dict now ag) other))
          = ql_load_from_dict (ql_to_dict now ag) other
      \<and> snd (get_best_action d c h ag) = ag)
   \<and> fst (get_best_action d c h
          (ag\<lparr> q_table :=
                 q_table (snd (get_best_action d c h
                                 (ql_load_from_dict (ql_to_dict now ag) other))) \<rparr>))
     = fst (get_best_action d c h (ql_load_from_dict (ql_to_dict now ag) other))
   \<and> snd (get_arm_probabilities t cu hc (ts_load_from_dict (ts_to_dict now' tag) tother))
     = ts_load_from_dict (ts_to_dict now' tag) tother
   \<and> snd (get_arm_probabilities t cu hc tag) = tag"
proof -
  let ?l = "ql_load_from_dict (ql_to_dict now ag) other"
  let ?k = "get_state_key d c h"
  have qt: "q_table ?l = q_table ag" and ac: "actions ?l = actions ag"
    by (simp_all add: ql_load_from_dict_def ql_to_dict_def)
  have c1: "fst (get_best_action d c h ?l) = fst (get_best_action d c h ag)"
    using qt ac by (rule get_best_action_cong)
  have c2: "fst (get_best_action d c h (QLearningScheduler lr df eps (Some (ql_to_dict now ag))))
          = fst (get_best_action d c h ag)"
    by (rule get_best_action_cong)
       (simp_all add: QLearningScheduler_def ql_load_from_dict_def ql_to_dict_def)
  have c3: "fst (get_arm_probabilities t cu hc (ts_load_from_dict (ts_to_dict now' tag) tother))
          = fst (get_arm_probabilities t cu hc tag)"
    by (rule get_arm_probabilities_cong) (simp_all add: ts_load_from_dict_def ts_to_dict_def)
  have c4: "fst (get_arm_probabilities t cu hc (ThompsonSamplingMessenger (Some (ts_to_dict now' tag))))
          = fst (get_arm_probabilities t cu hc tag)"
    by (rule get_arm_probabilities_cong)
       (simp_all add: ThompsonSamplingMessenger_def ts_load_from_dict_def ts_to_dict_def)
  have c7: "distributions (ts_load_from_dict (ts_to_dict now' tag) tother) = distributions tag"
    and c8: "arms (ts_load_from_dict (ts_to_dict now' tag) tother) = arms tag"
    by (simp_all add: ts_load_from_dict_def ts_to_dict_def)
  have c9: "dict_contains (q_table ag) ?k \<longrightarrow>
        snd (get_best_action d c h ?l) = ?l \<and> snd (get_best_action d c h ag) = ag"
  proof (intro impI conjI)
    assume h: "dict_contains (q_table ag) ?k"
    then have "dict_contains (q_table ?l) ?k" unfolding qt .
    then show "snd (get_best_action d c h ?l) = ?l" by (rule get_best_action_kept)
    from h show "snd (get_best_action d c h ag) = ag" by (rule get_best_action_kept)
  qed
  have tbl: "q_table (snd (get_best_action d c h ?l)) = q_table (init_state ?k ag)"
    unfolding get_best_action_state using qt ac by (rule init_state_table_cong)
  have c10: "fst (get_best_action d c h
                    (ag\<lparr> q_table := q_table (snd (get_best_action d c h ?l)) \<rparr>))
               = fst (get_best_action d c h ?l)"
    unfolding tbl get_best_action_again c1 ..
  have c11: "snd (get_arm_probabilities t cu hc (ts_load_from_dict (ts_to_dict now' tag) tother))
     = ts_load_from_dict (ts_to_dict now' tag) tother"
    and c12: "snd (get_arm_probabilities t cu hc tag) = tag"
    by (rule get_arm_probabilities_state)+
  show ?thesis
    by (intro conjI) (rule c1 c2 c3 c4 qt ac c7 c8 c9 c10 c11 c12)+
qed

text \<open>
  The round trip of the scheduler after the update of C1, at the state it touched, and of
  the messenger after one success for \<^verbatim>\<open>casual\<close>, at that context.
\<close>

theorem snapshot_round_trip_witness:
  "dict_contains
     (q_table (snd (ql_update (4, ''startup'', True) ''wait_5d'' 10 None
                      (QLearningScheduler 0.5 0.9 0.1 None))))
     (get_state_key 4 ''startup'' True)
   \<and> fst (get_best_action 4 ''startup'' True
            (QLearningScheduler 0.1 0.9 0.1
               (Some (ql_to_dict ''2025-01-01T00:00:00''
                  (snd (ql_update (4, ''startup'', True) ''wait_5d'' 10 None
                          (QLearningScheduler 0.5 0.9 0.1 None)))))))
       = Inr (''wait_5d'', 5)
   \<and> snd (get_best_action 4 ''startup'' True
            (ql_load_from_dict
               (ql_to_dict ''2025-01-01T00:00:00''
                  (snd (ql_update (4, ''startup'', True) ''wait_5d'' 10 None
                          (QLearningScheduler 0.5 0.9 0.1 None))))
               (QLearningScheduler 0.1 0.9 0.1 None)))
       = ql_load_from_dict
           (ql_to_dict ''2025-01-01T00:00:00''
              (snd (ql_update (4, ''startup'', True) ''wait_5d'' 10 None
                      (QLearningScheduler 0.5 0.9 0.1 None))))
           (QLearningScheduler 0.1 0.9 0.1 None)
   \<and> fst (get_arm_probabilities ''Recruiter'' ''casual'' True
            (ThompsonSamplingMessenger
               (Some (ts_to_dict ''2025-01-01T00:00:00''
                  (snd (ts_update ''Recruiter'' ''casual'' True ''casual'' True
                          (ThompsonSamplingMessenger None)))))))
       = Inr [(''formal'', 1 / 2), (''casual'', 2 / 3), (''connection_focused'', 1 / 2)]"
proof -
  define ag where "ag = snd (ql_update (4, ''startup'', True) ''wait_5d'' 10 None
                               (QLearningScheduler 0.5 0.9 0.1 None))"
  define tag where "tag = snd (ts_update ''Recruiter'' ''casual'' True ''casual'' True
                                 (ThompsonSamplingMessenger None))"
  note th = snapshot_round_trip[of 4 "''startup''" True "''2025-01-01T00:00:00''" ag
      "QLearningScheduler 0.1 0.9 0.1 None" "0.1" "0.9" "0.1"
      "''Recruiter''" "''casual''" True "''2025-01-01T00:00:00''" tag
      "ThompsonSamplingMessenger None"]
  note defs = ql_update_def QLearningScheduler_def ACTIONS_def init_state_def
    dict_contains_def dict_get_def dict_from_keys_def get_state_key_def day_bucket_def
    str_bool_def
  have key: "get_context_key ''Recruiter'' ''casual'' True = ''recruiter_casual_True''"
    by (simp add: get_context_key_def title_category_def lower_def lower_char_def
        any_word_in_def str_bool_def)
  have seen: "dict_contains (q_table ag) (get_state_key 4 ''startup'' True)"
    by (simp add: ag_def defs)
  have o: "fst (get_best_action 4 ''startup'' True ag) = Inr (''wait_5d'', 5)"
    by (simp add: ag_def defs get_best_action_def)
  have r1: "fst (get_best_action 4 ''startup'' True
              (QLearningScheduler 0.1 0.9 0.1 (Some (ql_to_dict ''2025-01-01T00:00:00'' ag))))
            = Inr (''wait_5d'', 5)"
    using th o by simp
  have r2: "snd (get_best_action 4 ''startup'' True
              (ql_load_from_dict (ql_to_dict ''2025-01-01T00:00:00'' ag)
                 (QLearningScheduler 0.1 0.9 0.1 None)))
            = ql_load_from_dict (ql_to_dict ''2025-01-01T00:00:00'' ag)
                (QLearningScheduler 0.1 0.9 0.1 None)"
    using th seen by simp
  have p: "fst (get_arm_probabilities ''Recruiter'' ''casual'' True tag)
             = Inr [(''formal'', 1 / 2), (''casual'', 2 / 3), (''connection_focused'', 1 / 2)]"
    by (simp add: tag_def ts_update_def key init_context_def ThompsonSamplingMessenger_def
        ARMS_def dict_contains_def dict_get_def dict_from_keys_def get_arm_probabilities_def)
  have r3: "fst (get_arm_probabilities ''Recruiter'' ''casual'' True
              (ThompsonSamplingMessenger (Some (ts_to_dict ''2025-01-01T00:00:00'' tag))))
            = Inr [(''formal'', 1 / 2), (''casual'', 2 / 3), (''connection_focused'', 1 / 2)]"
    using th p by simp
  show ?thesis
    using seen r1 r2 r3 unfolding ag_def tag_def by (intro conjI)
qed

section \<open>The summary of an empty table\<close>

text \<open>
  C6. On a scheduler whose Q-table is empty \<^verbatim>\<open>get_q_table_summary\<close> returns through its
  early return, a dict with the three keys \<^verbatim>\<open>total_states\<close>, \<^verbatim>\<open>total_updates\<close> and
  \<^verbatim>\<open>avg_q_value\<close> only: the mean is reported as 0, but the keys \<^verbatim>\<open>max_q_value\<close> and
  \<^verbatim>\<open>min_q_value\<close> are absent, so reading either raises KeyError. This holds for every
  agent once its table is empty, and so for the freshly constructed one.
\<close>

theorem summary_of_empty_table:
  "get_q_table_summary (ag\<lparr> q_table := [] \<rparr>)
     = [(''total_states'', IntV 0), (''total_updates'', IntV (total_updates ag)),
        (''avg_q_value'', FloatV 0)]
   \<and> dict_get (get_q_table_summary (ag\<lparr> q_table := [] \<rparr>)) ''avg_q_value'' = Inr (FloatV 0)
   \<and> dict_get (get_q_table_summary (ag\<lparr> q_table := [] \<rparr>)) ''max_q_value'' = Inl KeyError
   \<and> dict_get (get_q_table_summary (ag\<lparr> q_table := [] \<rparr>)) ''min_q_value'' = Inl KeyError
   \<and> q_table (QLearningScheduler lr df eps None) = []
   \<and> get_q_table_summary (QLearningScheduler lr df eps None)
     = [(''total_states'', IntV 0), (''total_updates'', IntV 0), (''avg_q_value'', FloatV 0)]
   \<and> dict_get (get_q_table_summary (QLearningScheduler lr df eps None)) ''max_q_value''
       = Inl KeyError
   \<and> dict_get (get_q_table_summary (QLearningScheduler lr df eps None)) ''min_q_value''
       = Inl KeyError"
  by (simp add: get_q_table_summary_def QLearningScheduler_def dict_get_def)

text \<open>
  The other return path does report all three as 0 when no value is stored (a table whose
  rows are empty), which is what its \<^verbatim>\<open>if all_q_values else 0.0\<close> guards are for; and on
  the table after the update of C1 it reports the mean 5/6, the maximum 5 and the minimum 0.
\<close>

lemma summary_of_empty_rows:
  "get_q_table_summary (ag\<lparr> q_table := [(k, [])] \<rparr>)
     = [(''total_states'', IntV 1), (''total_updates'', IntV (total_updates ag)),
        (''avg_q_value'', FloatV 0), (''max_q_value'', FloatV 0), (''min_q_value'', FloatV 0)]"
  by (simp add: get_q_table_summary_def dict_values_def)

lemma summary_after_update:
  "get_q_table_summary
     (snd (ql_update (4, ''startup'', True) ''wait_5d'' 10 None
             (QLearningScheduler 0.5 0.9 eps None)))
     = [(''total_states'', IntV 1), (''total_updates'', IntV 1),
        (''avg_q_value'', FloatV (5 / 6)), (''max_q_value'', FloatV 5),
        (''min_q_value'', FloatV 0)]"
  by (simp add: get_q_table_summary_def dict_values_def ql_update_def QLearningScheduler_def
      ACTIONS_def init_state_def dict_contains_def dict_get_def dict_from_keys_def
      np_mean_def np_max_def np_min_def)

section \<open>Title classification\<close>

text \<open>
  C7. The classifier is the first-match evaluation of the ordered keyword groups
  recruiter, executive, director with default manager. A title with keywords of several
  groups gets the first of them in that order: "VP of Talent Acquisition" contains an
  executive keyword and a recruiter keyword and is classified as recruiter;
  "Director of Recruiting" is a recruiter, "Chief Director" an executive; a title with a
  director keyword only is a director and one with no keyword a manager.
\<close>

theorem title_precedence:
  "title_category title = classify_spec title_groups ''manager'' (lower title)
   \<and> map fst title_groups = [''recruiter'', ''executive'', ''director'']
   \<and> any_word_in [''vp'', ''vice president'', ''chief'', ''head'']
        (lower ''VP of Talent Acquisition'')
   \<and> any_word_in [''recruit'', ''talent'', ''hr''] (lower ''VP of Talent Acquisition'')
   \<and> title_category ''VP of Talent Acquisition'' = ''recruiter''
   \<and> get_context_key ''VP of Talent Acquisition'' ''formal'' True = ''recruiter_formal_True''
   \<and> title_category ''Director of Recruiting'' = ''recruiter''
   \<and> title_category ''Chief Director'' = ''executive''
   \<and> title_category ''Director of Engineering'' = ''director''
   \<and> title_category ''Engineering Manager'' = ''manager''"
proof (intro conjI)
  show "title_category title = classify_spec title_groups ''manager'' (lower title)"
    by (simp add: title_category_def title_groups_def Let_def)
  show "map fst title_groups = [''recruiter'', ''executive'', ''director'']"
    by (simp add: title_groups_def)
  show "any_word_in [''vp'', ''vice president'', ''chief'', ''head'']
          (lower ''VP of Talent Acquisition'')"
    by (simp add: any_word_in_def lower_def lower_char_def)
  show "any_word_in [''recruit'', ''talent'', ''hr''] (lower ''VP of Talent Acquisition'')"
    by (simp add: any_word_in_def lower_def lower_char_def)
  show "title_category ''VP of Talent Acquisition'' = ''recruiter''"
    by (simp add: title_category_def any_word_in_def lower_def lower_char_def)
  show "get_context_key ''VP of Talent Acquisition'' ''formal'' True = ''recruiter_formal_True''"
    by (simp add: get_context_key_def title_category_def any_word_in_def lower_def
        lower_char_def str_bool_def)
  show "title_category ''Director of Recruiting'' = ''recruiter''"
    by (simp add: title_category_def any_word_in_def lower_def lower_char_def)
  show "title_category ''Chief Director'' = ''executive''"
    by (simp add: title_category_def any_word_in_def lower_def lower_char_def)
  show "title_category ''Director of Engineering'' = ''director''"
    by (simp add: title_category_def any_word_in_def lower_def lower_char_def)
  show "title_category ''Engineering Manager'' = ''manager''"
    by (simp add: title_category_def any_word_in_def lower_def lower_char_def)
qed

text \<open>
  C10. Keywords are matched as substrings of the lowercased title: a title whose
  lowercased text contains "hr" anywhere is classified as recruiter, whatever else it
  contains, and its context key starts with that category. "Chrome Lead" contains "hr"
  inside "chrome" and the director keyword "lead", and is classified as recruiter.
\<close>

theorem hr_substring_is_recruiter:
  assumes "lower title = pre @ ''hr'' @ suf"
  shows "title_category title = ''recruiter''
       \<and> get_context_key title culture has_connection
           = ''recruiter_'' @ culture @ ''_'' @ str_bool has_connection
       \<and> title_category ''Chrome Lead'' = ''recruiter''
       \<and> any_word_in [''director'', ''lead''] (lower ''Chrome Lead'')
       \<and> \<not> any_word_in [''recruit'', ''talent''] (lower ''Chrome Lead'')"
proof (intro conjI)
  have "str_in ''hr'' (lower title)" unfolding str_in_iff using assms by blast
  then show c: "title_category title = ''recruiter''"
    by (simp add: title_category_def any_word_in_def)
  show "get_context_key title culture has_connection
          = ''recruiter_'' @ culture @ ''_'' @ str_bool has_connection"
    by (simp add: get_context_key_def c)
  show "title_category ''Chrome Lead'' = ''recruiter''"
    by (simp add: title_category_def any_word_in_def lower_def lower_char_def)
  show "any_word_in [''director'', ''lead''] (lower ''Chrome Lead'')"
    by (simp add: any_word_in_def lower_def lower_char_def)
  show "\<not> any_word_in [''recruit'', ''talent''] (lower ''Chrome Lead'')"
    by (simp add: any_word_in_def lower_def lower_char_def)
qed

theorem hr_substring_is_recruiter_witness:
  "lower ''VP and Head of Chrome'' = ''vp and head of c'' @ ''hr'' @ ''ome''
   \<and> any_word_in [''vp'', ''vice president'', ''chief'', ''head''] (lower ''VP and Head of Chrome'')
   \<and> title_category ''VP and Head of Chrome'' = ''recruiter''"
proof -
  have l: "lower ''VP and Head of Chrome'' = ''vp and head of c'' @ ''hr'' @ ''ome''"
    by (simp add: lower_def lower_char_def)
  have e: "any_word_in [''vp'', ''vice president'', ''chief'', ''head'']
             (lower ''VP and Head of Chrome'')"
    by (simp add: any_word_in_def lower_def lower_char_def)
  from hr_substring_is_recruiter[OF l]
  have "title_category ''VP and Head of Chrome'' = ''recruiter''" by simp
  with l e show ?thesis by (intro conjI)
qed

end
